theory Spec2Isabelle
  imports Main
begin

section \<open>Data model\<close>

text \<open>
  Users are identified by their primary key; a timestamp is a reading of an abstract clock.
  A \<open>team\<close> is an in-memory instance of the model class \<open>Team\<close> (models/team.py): in
  Python a ticket holds a reference to such an object, with the value of \<open>ticket_head\<close>
  the object had when it was loaded. Python integers are unbounded, hence \<open>int\<close>.
  The automatically filled \<open>created\<close> and \<open>activated\<close> columns are read by none of
  the functions below and are left out.
\<close>

type_synonym user = nat
type_synonym timestamp = nat

record team =
  team_id :: nat
  name :: string
  team_description :: string
  ticket_head :: int

text \<open>
  An in-memory instance of \<open>Ticket\<close> (models/ticket.py). \<open>ticket_id\<close> is \<open>None\<close>
  until the instance has been inserted; the foreign keys \<open>owner\<close> and \<open>team\<close> may be
  unset on an instance, which is what \<open>save\<close> tests for.
\<close>

record ticket =
  ticket_id :: "nat option"
  ticket_number :: "int option"
  owner :: "user option"
  assigned_user :: "user option"
  status :: "nat option"
  title :: string
  description :: string
  deactivated :: "timestamp option"
  team :: "team option"

text \<open>A row of the ticket table: the columns of a saved ticket.\<close>

record ticket_row =
  row_id :: nat
  row_ticket_number :: int
  row_owner :: user
  row_assigned_user :: "user option"
  row_status :: "nat option"
  row_title :: string
  row_description :: string
  row_deactivated :: "timestamp option"
  row_team :: nat

text \<open>
  The database: the team table keyed by primary key, the ticket table in storage order,
  and the sequence that hands out ticket primary keys.
\<close>

record database =
  teams :: "nat \<rightharpoonup> team"
  tickets :: "ticket_row list"
  ticket_seq :: nat

text \<open>
  The exceptions. \<open>ValidationError\<close> is \<open>serializers.ValidationError\<close>, with its detail
  and its status code; the four from \<open>InvalidMoveToDescendant\<close> to \<open>PathOverflow\<close> are
  those of the tree extension that \<open>_add_subticket\<close> names; the last two are failures of
  the specification's tree (section 4.2) for which the sources name no exception.
\<close>

datatype exn =
  ValueError string
  | ValidationError string nat
  | IntegrityError
  | Http404
  | SuspiciousOperation string
  | MultipleObjectsReturned
  | InvalidMoveToDescendant
  | InvalidPosition
  | NodeAlreadySaved
  | PathOverflow
  | CrossTeamViolation
  | AlreadyAttached

text \<open>A \<open>Response\<close> of the view layer: the message and the HTTP status code.\<close>

datatype response = Response string nat

section \<open>Ticket.save and the per-team counter\<close>

text \<open>\<open>team.save()\<close>: the row with the team's primary key takes the object's fields.\<close>

definition Team_save :: "database \<Rightarrow> team \<Rightarrow> database" where
  "Team_save db tm = db\<lparr>teams := (teams db)(team_id tm \<mapsto> tm)\<rparr>"

text \<open>\<open>Team.objects.get(pk=...)\<close> as used by a request: a fresh copy of the row.\<close>

definition Team_get :: "database \<Rightarrow> nat \<Rightarrow> exn + team" where
  "Team_get db k = (case teams db k of None \<Rightarrow> Inl Http404 | Some tm \<Rightarrow> Inr tm)"

definition to_row :: "nat \<Rightarrow> user \<Rightarrow> team \<Rightarrow> int \<Rightarrow> ticket \<Rightarrow> ticket_row" where
  "to_row i ow tm n tk =
     \<lparr>row_id = i, row_ticket_number = n, row_owner = ow,
      row_assigned_user = assigned_user tk, row_status = status tk,
      row_title = title tk, row_description = description tk,
      row_deactivated = deactivated tk, row_team = team_id tm\<rparr>"

text \<open>
  A method that mutates the database and the instance it is called on returns three
  things here: the exception it raised, if any, the database and the instance as they
  are when it returns or raises. What was written before an exception stays written:
  the sources open no transaction.
\<close>

type_synonym saved = "exn option \<times> database \<times> ticket"

text \<open>
  \<open>super(Ticket, self).save()\<close>: an instance without primary key is inserted under the next
  key of the sequence; an instance with a primary key updates the rows of that key, and
  is inserted under it when there is none. The columns \<open>owner\<close>, \<open>team\<close> and
  \<open>ticket_number\<close> are not nullable.
\<close>

definition Model_save :: "database \<Rightarrow> ticket \<Rightarrow> saved" where
  "Model_save db tk =
     (case (owner tk, team tk, ticket_number tk) of
        (Some ow, Some tm, Some n) \<Rightarrow>
          (case ticket_id tk of
             None \<Rightarrow>
               (let i = Suc (ticket_seq db)
                in (None,
                    db\<lparr>tickets := tickets db @ [to_row i ow tm n tk], ticket_seq := i\<rparr>,
                    tk\<lparr>ticket_id := Some i\<rparr>))
           | Some i \<Rightarrow>
               (if i \<in> row_id ` set (tickets db)
                then (None,
                      db\<lparr>tickets := map (\<lambda>r. if row_id r = i then to_row i ow tm n tk else r)
                                         (tickets db)\<rparr>,
                      tk)
                else (None, db\<lparr>tickets := tickets db @ [to_row i ow tm n tk]\<rparr>, tk)))
      | _ \<Rightarrow> (Some IntegrityError, db, tk))"

text \<open>
  \<open>Ticket.save\<close> (models/ticket.py, lines 66 to 81). The two tests come first; then the
  counter of the team object held by the ticket is incremented in memory, the team object
  is written, the ticket takes the object's counter as its number, and the ticket is written.
  The fields \<open>owner\<close> and \<open>team\<close> of the instance are what \<open>self.owner\<close> and
  \<open>self.team\<close> evaluate to, \<open>None\<close> being the value the two tests are written for. An
  instance on which reading one of them raises never reaches the tests, and nothing is
  written for it either.
\<close>

definition save :: "database \<Rightarrow> ticket \<Rightarrow> saved" where
  "save db tk =
     (case owner tk of
        None \<Rightarrow> (Some (ValueError ''missing owner''), db, tk)
      | Some ow \<Rightarrow>
          (case team tk of
             None \<Rightarrow> (Some (ValueError ''missing team''), db, tk)
           | Some tm \<Rightarrow>
               (let tm' = tm\<lparr>ticket_head := ticket_head tm + 1\<rparr>;
                    db' = Team_save db tm'
                in Model_save db' (tk\<lparr>team := Some tm', ticket_number := Some (ticket_head tm')\<rparr>))))"

text \<open>
  Loading a ticket by primary key, as \<open>get_object_or_404(Ticket, pk=pk)\<close> does; the team
  object is fetched from the team table when \<open>save\<close> first reads \<open>self.team\<close>, which
  is the table as it is at the load since nothing is written in between.
\<close>

definition from_row :: "database \<Rightarrow> ticket_row \<Rightarrow> ticket" where
  "from_row db r =
     \<lparr>ticket_id = Some (row_id r), ticket_number = Some (row_ticket_number r),
      owner = Some (row_owner r), assigned_user = row_assigned_user r,
      status = row_status r, title = row_title r, description = row_description r,
      deactivated = row_deactivated r, team = teams db (row_team r)\<rparr>"

definition get_ticket_or_404 :: "database \<Rightarrow> nat \<Rightarrow> exn + ticket" where
  "get_ticket_or_404 db k =
     (case filter (\<lambda>r. row_id r = k) (tickets db) of
        [] \<Rightarrow> Inl Http404
      | [r] \<Rightarrow> Inr (from_row db r)
      | _ \<Rightarrow> Inl MultipleObjectsReturned)"

text \<open>
  \<open>TicketViewSet.delete\<close> (old_views/ticket_view.py, lines 137 to 149), without the
  permission check, which belongs to the HTTP layer: the ticket is loaded, its
  \<open>deactivated\<close> field is set to the current time, and the ticket is saved.
\<close>

definition delete :: "database \<Rightarrow> timestamp \<Rightarrow> nat \<Rightarrow> (exn + response) \<times> database" where
  "delete db now k =
     (case get_ticket_or_404 db k of
        Inl e \<Rightarrow> (Inl e, db)
      | Inr instance \<Rightarrow>
          (case save db (instance\<lparr>deactivated := Some now\<rparr>) of
             (Some e, db', _) \<Rightarrow> (Inl e, db')
           | (None, db', _) \<Rightarrow> (Inr (Response ''okay'' 200), db')))"

text \<open>
  \<open>Ticket.retrieve_by_user\<close> (models/ticket.py, lines 57 to 61): the three conditions of
  the filter, over the table in the model's default ordering (by primary key).
\<close>

definition retrieve_by_user :: "database \<Rightarrow> user \<Rightarrow> team \<Rightarrow> ticket_row list" where
  "retrieve_by_user db u tm =
     filter (\<lambda>r. row_team r = team_id tm \<and> row_deactivated r = None \<and>
                 (row_owner r = u \<or> row_assigned_user r = Some u))
            (sort_key row_id (tickets db))"

text \<open>
  A create call as a request makes it (\<open>create_record\<close>, old_views/ticket_view.py, lines
  60 to 70), in its two halves: the serializer fetches the team named in the request and
  builds a new instance around that team object (\<open>create_load\<close>); the instance is then
  saved (\<open>save\<close>). The permission check, the tags and the tree placement of the view are
  not part of the numbering.
\<close>

definition create_load :: "database \<Rightarrow> nat \<Rightarrow> ticket \<Rightarrow> exn + ticket" where
  "create_load db k tk =
     (case Team_get db k of
        Inl e \<Rightarrow> Inl e
      | Inr tm \<Rightarrow> Inr (tk\<lparr>ticket_id := None, team := Some tm\<rparr>))"

definition create :: "database \<Rightarrow> nat \<Rightarrow> ticket \<Rightarrow> saved" where
  "create db k tk =
     (case create_load db k tk of
        Inl e \<Rightarrow> (Some e, db, tk)
      | Inr instance \<Rightarrow> save db instance)"



text \<open>
  Two create calls against the team \<open>k\<close>. In turn: the second call begins when the first
  has returned. Overlapping: both calls have fetched the team before either saves, which
  is the one schedule of two requests served at the same time that matters here. The
  result is the database after both calls, when both succeed.
\<close>

definition two_creates_in_turn :: "database \<Rightarrow> nat \<Rightarrow> ticket \<Rightarrow> ticket \<Rightarrow> database option" where
  "two_creates_in_turn db k a b =
     (case create db k a of
        (None, db1, _) \<Rightarrow>
          (case create db1 k b of (None, db2, _) \<Rightarrow> Some db2 | (Some _, _, _) \<Rightarrow> None)
      | (Some _, _, _) \<Rightarrow> None)"

definition two_creates_overlapping :: "database \<Rightarrow> nat \<Rightarrow> ticket \<Rightarrow> ticket \<Rightarrow> database option" where
  "two_creates_overlapping db k a b =
     (case (create_load db k a, create_load db k b) of
        (Inr a', Inr b') \<Rightarrow>
          (case save db a' of
             (None, db1, _) \<Rightarrow>
               (case save db1 b' of (None, db2, _) \<Rightarrow> Some db2 | (Some _, _, _) \<Rightarrow> None)
           | (Some _, _, _) \<Rightarrow> None)
      | _ \<Rightarrow> None)"

text \<open>
  What the numbering is meant to keep: every team row sits under its own key, every
  ticket row belongs to a team row whose counter is at least the ticket's number, no two
  ticket rows of one team carry the same number, and the key sequence is ahead of every
  ticket key.
\<close>

definition numbers_ok :: "database \<Rightarrow> bool" where
  "numbers_ok db \<longleftrightarrow>
     (\<forall>k tm. teams db k = Some tm \<longrightarrow> team_id tm = k) \<and>
     (\<forall>r\<in>set (tickets db).
         \<exists>tm. teams db (row_team r) = Some tm \<and> row_ticket_number r \<le> ticket_head tm) \<and>
     (\<forall>r\<in>set (tickets db). \<forall>r'\<in>set (tickets db).
         row_team r = row_team r' \<and> row_ticket_number r = row_ticket_number r' \<longrightarrow> r = r') \<and>
     (\<forall>r\<in>set (tickets db). row_id r \<le> ticket_seq db)"

text \<open>
  The team object after one increment, and the database after a successful create call
  by the user \<open>u\<close> against the team \<open>tm\<close> stored under \<open>k\<close>.
\<close>

definition next_team :: "team \<Rightarrow> team" where
  "next_team tm = tm\<lparr>ticket_head := ticket_head tm + 1\<rparr>"

definition created_db :: "database \<Rightarrow> nat \<Rightarrow> team \<Rightarrow> user \<Rightarrow> ticket \<Rightarrow> database" where
  "created_db db k tm u a =
     db\<lparr>teams := (teams db)(k \<mapsto> next_team tm),
        tickets := tickets db @
          [to_row (Suc (ticket_seq db)) u (next_team tm) (ticket_head tm + 1)
             (a\<lparr>ticket_id := None, team := Some (next_team tm),
                ticket_number := Some (ticket_head tm + 1)\<rparr>)],
        ticket_seq := Suc (ticket_seq db)\<rparr>"

text \<open>The numbers stored under a ticket key, and the counter stored under a team key.\<close>

definition stored_numbers :: "database \<Rightarrow> nat \<Rightarrow> int list" where
  "stored_numbers db i = map row_ticket_number (filter (\<lambda>r. row_id r = i) (tickets db))"

definition stored_head :: "database \<Rightarrow> nat \<Rightarrow> int option" where
  "stored_head db k = map_option ticket_head (teams db k)"

section \<open>The ticket tree\<close>

text \<open>
  Modelled from the spec: the model class \<open>TicketNode\<close> and the tree extension it is built
  on are not among the sources; only their uses are (\<open>add_child(ticket=...)\<close>,
  \<open>move(target=..., pos="last-child")\<close>, \<open>is_root()\<close>, \<open>get_children()\<close>, and the four
  exceptions that \<open>_add_subticket\<close> catches). The forest follows section 4.2 of the
  specification, which hides the encoding: a node stands for one ticket and is a root or
  has one parent; a new child and a moved node become the last child of their parent.
  The table is kept in sibling order.
\<close>

type_synonym node = "nat \<times> nat option"
type_synonym tree = "node list"

definition nodes_of :: "tree \<Rightarrow> nat \<Rightarrow> node list" where
  "nodes_of tr t = filter (\<lambda>n. fst n = t) tr"

text \<open>Modelled from the spec: \<open>is_root\<close>, a node without parent (section 4.2).\<close>

definition is_root :: "node \<Rightarrow> bool" where
  "is_root n \<longleftrightarrow> snd n = None"

text \<open>
  Modelled from the spec: \<open>ancestors_of\<close>, root first (section 4.2). \<open>chain\<close> lists
  the parents met when walking up from a ticket, nearest first, in at most \<open>k\<close> steps; a
  walk in a forest of \<open>length tr\<close> nodes has no more steps than that. A node is a
  descendant of the nodes met on its way up.
\<close>

fun chain :: "nat \<Rightarrow> tree \<Rightarrow> nat \<Rightarrow> nat list" where
  "chain 0 tr x = []"
| "chain (Suc k) tr x =
     (case map_of tr x of Some (Some p) \<Rightarrow> p # chain k tr p | _ \<Rightarrow> [])"

definition ancestors_of :: "tree \<Rightarrow> nat \<Rightarrow> nat list" where
  "ancestors_of tr x = rev (chain (length tr) tr x)"

definition is_descendant_of :: "tree \<Rightarrow> nat \<Rightarrow> nat \<Rightarrow> bool" where
  "is_descendant_of tr x y \<longleftrightarrow> y \<in> set (chain (length tr) tr x)"

text \<open>Modelled from the spec: \<open>children_of\<close>, the direct children in insertion order.\<close>

definition get_children :: "tree \<Rightarrow> nat \<Rightarrow> nat list" where
  "get_children tr x = map fst (filter (\<lambda>n. snd n = Some x) tr)"

text \<open>
  Modelled from the spec: the structural limits of the storage backend (section 4.2; the
  glossary speaks of an encoding that cannot represent a deeper or wider position). The
  specification gives no numbers, so they are parameters: the greatest depth a node may
  have, a root having depth 1, and the greatest number of children a node may have.
\<close>

record limits =
  max_depth :: nat
  max_width :: nat

text \<open>Modelled from the spec: the depth of a ticket in the forest, 1 for a root.\<close>

definition depth :: "tree \<Rightarrow> nat \<Rightarrow> nat" where
  "depth tr x = Suc (length (chain (length tr) tr x))"

text \<open>Modelled from the spec: the subtree of a ticket, which is the ticket and its descendants.\<close>

definition subtree :: "tree \<Rightarrow> nat \<Rightarrow> nat list" where
  "subtree tr x = x # filter (\<lambda>y. is_descendant_of tr y x) (map fst tr)"

text \<open>Modelled from the spec: the number of levels of the subtree of a ticket.\<close>

definition height :: "tree \<Rightarrow> nat \<Rightarrow> nat" where
  "height tr x = fold max (map (\<lambda>y. Suc (depth tr y - depth tr x)) (subtree tr x)) 0"

text \<open>
  Modelled from the spec: the condition of \<open>DepthOverflow\<close> (section 4.2). Placing the
  ticket \<open>x\<close>, with all that hangs below it, under the ticket \<open>p\<close> overflows when the
  lowest node of that subtree would come to lie deeper than the first limit, or when
  \<open>p\<close> has as many children other than \<open>x\<close> as the second limit allows.
\<close>

definition overflows :: "limits \<Rightarrow> tree \<Rightarrow> nat \<Rightarrow> nat \<Rightarrow> bool" where
  "overflows lim tr x p \<longleftrightarrow>
     max_depth lim < depth tr p + height tr x \<or>
     max_width lim \<le> length (filter (\<lambda>c. c \<noteq> x) (get_children tr p))"

text \<open>
  Modelled from the spec: what a tree operation reads of a ticket, which is its primary
  key and the key of its team (section 3 keeps the team with the ticket, and a node
  refers to its ticket).
\<close>

type_synonym ticket_ref = "nat \<times> nat option"

text \<open>The key of the team of an instance, its \<open>team_id\<close> attribute.\<close>

definition team_key :: "ticket \<Rightarrow> nat option" where
  "team_key tk = map_option team_id (team tk)"

text \<open>
  Modelled from the spec: \<open>insert_child\<close> (section 4.2), for the missing \<open>add_child\<close>.
  The child becomes the last child of the parent. The call fails, in the order in which
  the specification lists the failures, with \<open>CrossTeamViolation\<close> when the teams differ,
  with \<open>AlreadyAttached\<close> when the child has a parent already, and with \<open>CycleDetected\<close>
  when the parent is the child or a descendant of it; last, it fails with the path
  overflow that serializers.py (line 235) warns of when the position exceeds the limits.
  \<open>CycleDetected\<close> and the overflow are raised as \<open>InvalidMoveToDescendant\<close> and
  \<open>PathOverflow\<close>, the exceptions of the tree extension that \<open>_add_subticket\<close> catches.
\<close>

definition add_child :: "limits \<Rightarrow> tree \<Rightarrow> ticket_ref \<Rightarrow> ticket_ref \<Rightarrow> exn + tree" where
  "add_child lim tr parent child =
     (if snd parent \<noteq> snd child then Inl CrossTeamViolation
      else if filter (\<lambda>n. \<not> is_root n) (nodes_of tr (fst child)) \<noteq> [] then Inl AlreadyAttached
      else if fst parent = fst child \<or> is_descendant_of tr (fst parent) (fst child)
      then Inl InvalidMoveToDescendant
      else if overflows lim tr (fst child) (fst parent) then Inl PathOverflow
      else Inr (filter (\<lambda>n. fst n \<noteq> fst child) tr @ [(fst child, Some (fst parent))]))"

text \<open>
  Modelled from the spec: \<open>move\<close> (section 4.2) makes the node the last child of the new
  parent. It fails, in the order in which the specification lists the failures, with
  \<open>CycleDetected\<close> (raised as \<open>InvalidMoveToDescendant\<close>) when the new parent is the node
  or a descendant of the node, with \<open>CrossTeamViolation\<close> when the teams differ, and with
  \<open>DepthOverflow\<close> (raised as \<open>PathOverflow\<close>, of which the specification calls it the
  analog) when the resulting position exceeds the limits.
\<close>

definition move :: "limits \<Rightarrow> tree \<Rightarrow> ticket_ref \<Rightarrow> ticket_ref \<Rightarrow> exn + tree" where
  "move lim tr node target =
     (if fst target = fst node \<or> is_descendant_of tr (fst target) (fst node)
      then Inl InvalidMoveToDescendant
      else if snd target \<noteq> snd node then Inl CrossTeamViolation
      else if overflows lim tr (fst node) (fst target) then Inl PathOverflow
      else Inr (filter (\<lambda>n. fst n \<noteq> fst node) tr @ [(fst node, Some (fst target))]))"

text \<open>
  \<open>TicketViewSet._add_subticket\<close> (old_views/ticket_view.py, lines 152 to 176). The node
  of the parent is fetched (no node: \<open>Http404\<close>, raised through the \<open>try\<close>); the nodes
  of the child are filtered; one node that is a root is moved, one node that is not a
  root is refused, no node means a new child. The \<open>except\<close> clause turns the four tree
  exceptions it names into one response; any other exception leaves the function as it
  was raised. Section 4.2 gives the tree operations no failure that corresponds to
  \<open>InvalidPosition\<close> or \<open>NodeAlreadySaved\<close>, so the clause meets these two from no
  operation of the model. The two tickets are instances: the function reads their
  primary keys, and the tree operations read their teams. A child that was never saved
  has no key a node could refer to, and its node cannot be stored.
\<close>

definition pk_nodes :: "tree \<Rightarrow> ticket \<Rightarrow> node list" where
  "pk_nodes tr tk = (case ticket_id tk of None \<Rightarrow> [] | Some t \<Rightarrow> nodes_of tr t)"

definition caught :: "exn \<Rightarrow> exn + response" where
  "caught e =
     (if e \<in> {InvalidMoveToDescendant, InvalidPosition, NodeAlreadySaved, PathOverflow}
      then Inr (Response ''invalid tree operation'' 400)
      else Inl e)"

definition add_subticket :: "limits \<Rightarrow> tree \<Rightarrow> ticket \<Rightarrow> ticket \<Rightarrow> (exn + response) \<times> tree" where
  "add_subticket lim tr parent child =
     (case pk_nodes tr parent of
        [] \<Rightarrow> (Inl Http404, tr)
      | [parent_node] \<Rightarrow>
          (case pk_nodes tr child of
             [] \<Rightarrow>
               (case ticket_id child of
                  None \<Rightarrow> (Inl IntegrityError, tr)
                | Some c \<Rightarrow>
                    (case add_child lim tr (fst parent_node, team_key parent)
                            (c, team_key child) of
                       Inl e \<Rightarrow> (caught e, tr)
                     | Inr tr' \<Rightarrow> (Inr (Response ''okay'' 200), tr')))
           | [ticket_node] \<Rightarrow>
               (if is_root ticket_node
                then (case move lim tr (fst ticket_node, team_key child)
                             (fst parent_node, team_key parent) of
                        Inl e \<Rightarrow> (caught e, tr)
                      | Inr tr' \<Rightarrow> (Inr (Response ''okay'' 200), tr'))
                else (Inr (Response ''ticket already part of a graph'' 400), tr))
           | _ \<Rightarrow> (Inl (SuspiciousOperation ''Invalid request; the tree got messed up''), tr))
      | _ \<Rightarrow> (Inl MultipleObjectsReturned, tr))"

text \<open>A sequence of calls, each on the tree the one before has left.\<close>

fun add_subtickets :: "limits \<Rightarrow> tree \<Rightarrow> (ticket \<times> ticket) list \<Rightarrow> tree" where
  "add_subtickets lim tr [] = tr"
| "add_subtickets lim tr ((parent, child) # calls) =
     add_subtickets lim (snd (add_subticket lim tr parent child)) calls"

text \<open>
  The forest is well formed when every ticket has at most one node, every parent named
  by a node has a node itself, and walking up never comes back.
\<close>

definition parent_rel :: "tree \<Rightarrow> (nat \<times> nat) set" where
  "parent_rel tr = {(c, p). (c, Some p) \<in> set tr}"

definition wf_tree :: "tree \<Rightarrow> bool" where
  "wf_tree tr \<longleftrightarrow>
     distinct (map fst tr) \<and> (\<forall>n\<in>set tr. \<forall>p. snd n = Some p \<longrightarrow> p \<in> fst ` set tr) \<and>
     acyclic (parent_rel tr)"

section \<open>Tag associations\<close>

text \<open>
  Modelled from the spec: \<open>TicketTag.delete_difference\<close>, which \<open>TicketSerializer.update\<close>
  (serializers.py, line 256) calls, is not among the sources, nor is the model class
  \<open>TicketTag\<close>. The association record and \<open>reconcile\<close> follow sections 3 and 4.3 of the
  specification: the associations of the ticket whose tag is no longer desired are
  detached (the record is deleted), and an association is created, at the current time,
  for every desired tag the ticket does not have yet; the other records are not touched.
\<close>

record ticket_tag =
  assoc_id :: nat
  assoc_ticket :: nat
  assoc_tag :: nat
  assoc_team :: nat
  assoc_created :: timestamp

record tag_store =
  assocs :: "ticket_tag list"
  assoc_seq :: nat

text \<open>Modelled from the spec: the tags attached to a ticket are those of its records.\<close>

definition attached :: "tag_store \<Rightarrow> nat \<Rightarrow> nat list" where
  "attached st t = map assoc_tag (filter (\<lambda>a. assoc_ticket a = t) (assocs st))"

text \<open>
  Modelled from the spec: attaching a tag creates an association record with the
  current time as its creation time.
\<close>

definition attach :: "timestamp \<Rightarrow> nat \<Rightarrow> nat \<Rightarrow> tag_store \<Rightarrow> nat \<Rightarrow> tag_store" where
  "attach now t tm st g =
     st\<lparr>assocs := assocs st @
           [\<lparr>assoc_id = Suc (assoc_seq st), assoc_ticket = t, assoc_tag = g, assoc_team = tm,
             assoc_created = now\<rparr>],
        assoc_seq := Suc (assoc_seq st)\<rparr>"

text \<open>
  Modelled from the spec: \<open>reconcile\<close> (section 4.3), for the missing
  \<open>TicketTag.delete_difference\<close>: a set difference in both directions.
\<close>

definition reconcile :: "tag_store \<Rightarrow> timestamp \<Rightarrow> nat \<Rightarrow> nat \<Rightarrow> nat list \<Rightarrow> tag_store" where
  "reconcile st now t tm desired =
     (let kept = st\<lparr>assocs := filter (\<lambda>a. assoc_ticket a = t \<longrightarrow> assoc_tag a \<in> set desired)
                                     (assocs st)\<rparr>;
          new = remdups (filter (\<lambda>g. g \<notin> set (attached st t)) desired)
      in foldl (attach now t tm) kept new)"

definition records_of :: "tag_store \<Rightarrow> nat \<Rightarrow> nat \<Rightarrow> ticket_tag list" where
  "records_of st t g = filter (\<lambda>a. assoc_ticket a = t \<and> assoc_tag a = g) (assocs st)"

section \<open>Example data\<close>

text \<open>The team and the ticket of the test suite (tests/ticket_test.py).\<close>

definition bugslotics :: team where
  "bugslotics = \<lparr>team_id = 1, name = ''bugslotics'', team_description = ''a pretty cool team'',
                 ticket_head = 0\<rparr>"

definition fresh_db :: database where
  "fresh_db = \<lparr>teams = [1 \<mapsto> bugslotics], tickets = [], ticket_seq = 0\<rparr>"

definition testing_ticket :: ticket where
  "testing_ticket =
     \<lparr>ticket_id = None, ticket_number = Some 1, owner = Some 1, assigned_user = Some 2,
      status = None, title = ''Testing Ticket'', description = [], deactivated = None,
      team = Some bugslotics\<rparr>"

definition stored_row :: ticket_row where
  "stored_row =
     \<lparr>row_id = 1, row_ticket_number = 1, row_owner = 1, row_assigned_user = Some 2,
      row_status = None, row_title = ''Testing Ticket'', row_description = [],
      row_deactivated = None, row_team = 1\<rparr>"

definition stored_db :: database where
  "stored_db = \<lparr>teams = [1 \<mapsto> bugslotics\<lparr>ticket_head := 1\<rparr>], tickets = [stored_row],
                ticket_seq = 1\<rparr>"

definition no_tags :: tag_store where
  "no_tags = \<lparr>assocs = [], assoc_seq = 0\<rparr>"

text \<open>
  Tickets with a primary key: A, B and D of the team 1, C and E of the team 2. Small
  forests over them, and a backend with room for two levels and one child per node.
\<close>

definition ticket_A :: ticket where
  "ticket_A = testing_ticket\<lparr>ticket_id := Some 1\<rparr>"

definition ticket_B :: ticket where
  "ticket_B = testing_ticket\<lparr>ticket_id := Some 2\<rparr>"

definition other_team :: team where
  "other_team = \<lparr>team_id = 2, name = ''slugbotics'', team_description = ''another team'',
                 ticket_head = 0\<rparr>"

definition ticket_C :: ticket where
  "ticket_C = testing_ticket\<lparr>ticket_id := Some 3, team := Some other_team\<rparr>"

definition ticket_D :: ticket where
  "ticket_D = testing_ticket\<lparr>ticket_id := Some 4\<rparr>"

definition ticket_E :: ticket where
  "ticket_E = testing_ticket\<lparr>ticket_id := Some 5, team := Some other_team\<rparr>"

definition only_A :: tree where
  "only_A = [(1, None)]"

definition two_roots :: tree where
  "two_roots = [(1, None), (2, None)]"

definition A_over_B :: tree where
  "A_over_B = [(1, None), (2, Some 1)]"

definition A_over_B_and_D :: tree where
  "A_over_B_and_D = [(1, None), (2, Some 1), (4, None)]"

definition roots_of_two_teams :: tree where
  "roots_of_two_teams = [(1, None), (3, None)]"

definition A_and_C_over_E :: tree where
  "A_and_C_over_E = [(1, None), (3, None), (5, Some 3)]"

definition small_backend :: limits where
  "small_backend = \<lparr>max_depth = 2, max_width = 1\<rparr>"

section \<open>Properties of the numbering\<close>

lemma save_new_row:
  assumes "owner tk = Some ow" "team tk = Some tm" "ticket_id tk = None"
  shows "save db tk =
           (None,
            db\<lparr>teams := (teams db)(team_id tm \<mapsto> tm\<lparr>ticket_head := ticket_head tm + 1\<rparr>),
               tickets := tickets db @
                 [to_row (Suc (ticket_seq db)) ow (tm\<lparr>ticket_head := ticket_head tm + 1\<rparr>)
                    (ticket_head tm + 1)
                    (tk\<lparr>team := Some (tm\<lparr>ticket_head := ticket_head tm + 1\<rparr>),
                        ticket_number := Some (ticket_head tm + 1)\<rparr>)],
               ticket_seq := Suc (ticket_seq db)\<rparr>,
            tk\<lparr>team := Some (tm\<lparr>ticket_head := ticket_head tm + 1\<rparr>),
               ticket_number := Some (ticket_head tm + 1),
               ticket_id := Some (Suc (ticket_seq db))\<rparr>)"
  using assms by (simp add: save_def Model_save_def Team_save_def Let_def)

lemma create_new_row:
  assumes "teams db k = Some tm" "team_id tm = k" "owner a = Some u"
  shows "create db k a =
           (None, created_db db k tm u a,
            a\<lparr>ticket_id := Some (Suc (ticket_seq db)), team := Some (next_team tm),
              ticket_number := Some (ticket_head tm + 1)\<rparr>)"
  using assms save_new_row [of "a\<lparr>ticket_id := None, team := Some tm\<rparr>" u tm db]
  by (simp add: create_def create_load_def Team_get_def created_db_def next_team_def)

lemma create_success:
  assumes "create db k a = (None, db', a')"
  shows "\<exists>tm u. teams db k = Some tm \<and> owner a = Some u"
  using assms
  by (auto simp: create_def create_load_def Team_get_def save_def split: option.splits)

lemma created_db_team:
  "teams (created_db db k tm u a) k = Some (next_team tm)"
  "team_id (next_team tm) = team_id tm"
  "ticket_head (next_team tm) = ticket_head tm + 1"
  by (simp_all add: created_db_def next_team_def)

text \<open>
  C8. A create call against a team whose counter stands at \<open>h\<close> succeeds as soon as the
  ticket has an owner; it leaves the counter at \<open>h + 1\<close>, returns the ticket with the
  number \<open>h + 1\<close>, and adds to the ticket table one row, the ticket's, which carries
  the number \<open>h + 1\<close>. The next create call leaves the counter at \<open>h + 2\<close> and
  adds a second row, with the number \<open>h + 2\<close>. In a fresh team (\<open>h = 0\<close>) the first
  two tickets are numbered 1 and 2.
\<close>

theorem create_takes_next_number:
  assumes "teams db k = Some tm" "team_id tm = k" "owner a = Some u" "owner b = Some v"
  shows "\<exists>db1 a1 r1 db2 b1 r2.
           create db k a = (None, db1, a1) \<and> create db1 k b = (None, db2, b1) \<and>
           ticket_number a1 = Some (ticket_head tm + 1) \<and>
           map_option ticket_head (teams db1 k) = Some (ticket_head tm + 1) \<and>
           tickets db1 = tickets db @ [r1] \<and> ticket_id a1 = Some (row_id r1) \<and>
           row_team r1 = k \<and> row_owner r1 = u \<and> row_ticket_number r1 = ticket_head tm + 1 \<and>
           ticket_number b1 = Some (ticket_head tm + 2) \<and>
           map_option ticket_head (teams db2 k) = Some (ticket_head tm + 2) \<and>
           tickets db2 = tickets db @ [r1, r2] \<and> ticket_id b1 = Some (row_id r2) \<and>
           row_team r2 = k \<and> row_owner r2 = v \<and> row_ticket_number r2 = ticket_head tm + 2 \<and>
           row_id r2 \<noteq> row_id r1"
proof -
  let ?db1 = "created_db db k tm u a"
  let ?db2 = "created_db ?db1 k (next_team tm) v b"
  let ?r1 = "to_row (Suc (ticket_seq db)) u (next_team tm) (ticket_head tm + 1)
               (a\<lparr>ticket_id := None, team := Some (next_team tm),
                  ticket_number := Some (ticket_head tm + 1)\<rparr>)"
  let ?r2 = "to_row (Suc (Suc (ticket_seq db))) v (next_team (next_team tm)) (ticket_head tm + 2)
               (b\<lparr>ticket_id := None, team := Some (next_team (next_team tm)),
                  ticket_number := Some (ticket_head tm + 2)\<rparr>)"
  let ?a1 = "a\<lparr>ticket_id := Some (Suc (ticket_seq db)), team := Some (next_team tm),
               ticket_number := Some (ticket_head tm + 1)\<rparr>"
  let ?b1 = "b\<lparr>ticket_id := Some (Suc (Suc (ticket_seq db))),
               team := Some (next_team (next_team tm)),
               ticket_number := Some (ticket_head tm + 2)\<rparr>"
  have t1: "teams ?db1 k = Some (next_team tm)" "team_id (next_team tm) = k"
    using assms(2) by (simp_all add: created_db_team)
  have seq1: "ticket_seq ?db1 = Suc (ticket_seq db)" by (simp add: created_db_def)
  have h1: "ticket_head (next_team tm) + 1 = ticket_head tm + 2" by (simp add: next_team_def)
  have ca: "create db k a = (None, ?db1, ?a1)" by (rule create_new_row [OF assms(1,2,3)])
  have cb: "create ?db1 k b = (None, ?db2, ?b1)"
    using create_new_row [OF t1 assms(4)] by (simp only: seq1 h1)
  have rows1: "tickets ?db1 = tickets db @ [?r1]" by (simp add: created_db_def)
  have rows2: "tickets ?db2 = tickets db @ [?r1, ?r2]"
    by (simp add: created_db_def next_team_def add.commute)
  have r1: "row_id ?r1 = Suc (ticket_seq db)" "row_team ?r1 = k" "row_owner ?r1 = u"
    "row_ticket_number ?r1 = ticket_head tm + 1"
    using assms(2) by (simp_all add: to_row_def next_team_def)
  have r2: "row_id ?r2 = Suc (Suc (ticket_seq db))" "row_team ?r2 = k" "row_owner ?r2 = v"
    "row_ticket_number ?r2 = ticket_head tm + 2"
    using assms(2) by (simp_all add: to_row_def next_team_def)
  have hd1: "map_option ticket_head (teams ?db1 k) = Some (ticket_head tm + 1)"
    by (simp add: created_db_team)
  have hd2: "map_option ticket_head (teams ?db2 k) = Some (ticket_head tm + 2)"
    by (simp add: created_db_team)
  have "create db k a = (None, ?db1, ?a1) \<and> create ?db1 k b = (None, ?db2, ?b1) \<and>
        ticket_number ?a1 = Some (ticket_head tm + 1) \<and>
        map_option ticket_head (teams ?db1 k) = Some (ticket_head tm + 1) \<and>
        tickets ?db1 = tickets db @ [?r1] \<and> ticket_id ?a1 = Some (row_id ?r1) \<and>
        row_team ?r1 = k \<and> row_owner ?r1 = u \<and> row_ticket_number ?r1 = ticket_head tm + 1 \<and>
        ticket_number ?b1 = Some (ticket_head tm + 2) \<and>
        map_option ticket_head (teams ?db2 k) = Some (ticket_head tm + 2) \<and>
        tickets ?db2 = tickets db @ [?r1, ?r2] \<and> ticket_id ?b1 = Some (row_id ?r2) \<and>
        row_team ?r2 = k \<and> row_owner ?r2 = v \<and> row_ticket_number ?r2 = ticket_head tm + 2 \<and>
        row_id ?r2 \<noteq> row_id ?r1"
    using ca cb rows1 rows2 hd1 hd2 by (simp add: r1 r2)
  then show ?thesis by blast
qed

theorem create_takes_next_number_witness:
  "\<exists>db1 a1 db2 b1.
     create fresh_db 1 testing_ticket = (None, db1, a1) \<and>
     create db1 1 testing_ticket = (None, db2, b1) \<and>
     ticket_number a1 = Some 1 \<and> map_option ticket_head (teams db1 1) = Some 1 \<and>
     map row_ticket_number (tickets db1) = [1] \<and>
     map (Some \<circ> row_id) (tickets db1) = [ticket_id a1] \<and>
     ticket_number b1 = Some 2 \<and> map_option ticket_head (teams db2 1) = Some 2 \<and>
     map row_ticket_number (tickets db2) = [1, 2] \<and>
     map (Some \<circ> row_id) (tickets db2) = [ticket_id a1, ticket_id b1] \<and>
     map row_team (tickets db2) = [1, 1]"
proof -
  have h: "teams fresh_db 1 = Some bugslotics" "team_id bugslotics = 1"
    "owner testing_ticket = Some 1"
    by (simp_all add: fresh_db_def bugslotics_def testing_ticket_def)
  have e: "tickets fresh_db = []" "ticket_head bugslotics = 0"
    by (simp_all add: fresh_db_def bugslotics_def)
  from create_takes_next_number [OF h h(3)] show ?thesis
    unfolding e by (elim exE conjE) (intro exI conjI, assumption+, simp_all)
qed





text \<open>
  C10. The number a caller has put on the instance plays no part in a save: two saves
  that differ in that number alone raise or succeed alike and leave the same database,
  and when they succeed they leave the same instance, so the same number.
\<close>

theorem save_ignores_supplied_number:
  "fst (save db (tk\<lparr>ticket_number := x\<rparr>)) = fst (save db (tk\<lparr>ticket_number := y\<rparr>)) \<and>
   fst (snd (save db (tk\<lparr>ticket_number := x\<rparr>))) =
     fst (snd (save db (tk\<lparr>ticket_number := y\<rparr>))) \<and>
   (fst (save db (tk\<lparr>ticket_number := x\<rparr>)) = None \<longrightarrow>
      save db (tk\<lparr>ticket_number := x\<rparr>) = save db (tk\<lparr>ticket_number := y\<rparr>))"
  by (auto simp: save_def Model_save_def Team_save_def to_row_def Let_def split: option.splits)

theorem save_ignores_supplied_number_witness:
  "fst (save fresh_db (testing_ticket\<lparr>ticket_number := Some 1\<rparr>)) = None \<and>
   save fresh_db (testing_ticket\<lparr>ticket_number := Some 1\<rparr>) =
     save fresh_db (testing_ticket\<lparr>ticket_number := Some 7\<rparr>) \<and>
   ticket_number (snd (snd (save fresh_db (testing_ticket\<lparr>ticket_number := Some 7\<rparr>)))) = Some 1"
proof -
  have o: "owner (testing_ticket\<lparr>ticket_number := Some 1\<rparr>) = Some 1"
    "team (testing_ticket\<lparr>ticket_number := Some 1\<rparr>) = Some bugslotics"
    "ticket_id (testing_ticket\<lparr>ticket_number := Some 1\<rparr>) = None"
    by (simp_all add: testing_ticket_def)
  have s: "fst (save fresh_db (testing_ticket\<lparr>ticket_number := Some 1\<rparr>)) = None"
    by (simp add: save_new_row [OF o])
  have n: "ticket_number (snd (snd (save fresh_db (testing_ticket\<lparr>ticket_number := Some 1\<rparr>)))) = Some 1"
    by (simp add: save_new_row [OF o] bugslotics_def)
  have e: "save fresh_db (testing_ticket\<lparr>ticket_number := Some 1\<rparr>) =
     save fresh_db (testing_ticket\<lparr>ticket_number := Some 7\<rparr>)"
    using s save_ignores_supplied_number
      [where db = fresh_db and tk = testing_ticket and x = "Some 1" and y = "Some 7"]
    by blast
  from s n e show ?thesis by metis
qed

text \<open>
  C7. The tickets returned for a user and a team are exactly the rows of the ticket
  table that belong to the team, are not deactivated, and have the user as owner or
  as assigned user.
\<close>

theorem retrieve_by_user_exact:
  "r \<in> set (retrieve_by_user db u tm) \<longleftrightarrow>
     r \<in> set (tickets db) \<and> row_team r = team_id tm \<and> row_deactivated r = None \<and>
     (row_owner r = u \<or> row_assigned_user r = Some u)"
  by (auto simp: retrieve_by_user_def)

theorem retrieve_by_user_exact_witness:
  "stored_row \<in> set (retrieve_by_user stored_db 2 bugslotics) \<and>
   stored_row \<in> set (retrieve_by_user stored_db 1 bugslotics) \<and>
   stored_row \<notin> set (retrieve_by_user stored_db 3 bugslotics) \<and>
   stored_row\<lparr>row_deactivated := Some 5\<rparr> \<notin>
     set (retrieve_by_user (stored_db\<lparr>tickets := [stored_row\<lparr>row_deactivated := Some 5\<rparr>]\<rparr>) 1
            bugslotics)"
  using retrieve_by_user_exact [of stored_row stored_db 2 bugslotics]
    retrieve_by_user_exact [of stored_row stored_db 1 bugslotics]
    retrieve_by_user_exact [of stored_row stored_db 3 bugslotics]
    retrieve_by_user_exact [of "stored_row\<lparr>row_deactivated := Some 5\<rparr>"
      "stored_db\<lparr>tickets := [stored_row\<lparr>row_deactivated := Some 5\<rparr>]\<rparr>" 1 bugslotics]
  by (simp add: stored_db_def stored_row_def bugslotics_def)

lemma created_db_numbers_ok:
  assumes ok: "numbers_ok db" and tm: "teams db k = Some tm"
  shows "numbers_ok (created_db db k tm ow tk)"
proof -
  from ok tm have key: "team_id tm = k" by (auto simp: numbers_ok_def)
  let ?row = "to_row (Suc (ticket_seq db)) ow (next_team tm) (ticket_head tm + 1)
                (tk\<lparr>ticket_id := None, team := Some (next_team tm),
                    ticket_number := Some (ticket_head tm + 1)\<rparr>)"
  define db' where "db' = created_db db k tm ow tk"
  have db': "db' = db\<lparr>teams := (teams db)(k \<mapsto> next_team tm), tickets := tickets db @ [?row],
                      ticket_seq := Suc (ticket_seq db)\<rparr>"
    by (simp add: db'_def created_db_def)
  have row: "row_team ?row = k" "row_ticket_number ?row = ticket_head tm + 1"
            "row_id ?row = Suc (ticket_seq db)"
    using key by (simp_all add: to_row_def next_team_def)
  have old: "\<And>r. r \<in> set (tickets db) \<Longrightarrow> row_team r = k \<Longrightarrow> row_ticket_number r \<le> ticket_head tm"
    using ok tm by (fastforce simp: numbers_ok_def)
  have oldid: "\<And>r. r \<in> set (tickets db) \<Longrightarrow> row_id r \<le> ticket_seq db"
    using ok by (auto simp: numbers_ok_def)
  have uniq: "\<And>a b. a \<in> set (tickets db) \<Longrightarrow> b \<in> set (tickets db) \<Longrightarrow>
      row_team a = row_team b \<Longrightarrow> row_ticket_number a = row_ticket_number b \<Longrightarrow> a = b"
    using ok unfolding numbers_ok_def by blast
  have i1: "\<forall>k' t. teams db' k' = Some t \<longrightarrow> team_id t = k'"
    using ok key by (auto simp: db' numbers_ok_def next_team_def)
  have i2: "\<forall>r\<in>set (tickets db'). \<exists>t. teams db' (row_team r) = Some t \<and> row_ticket_number r \<le> ticket_head t"
  proof
    fix r assume "r \<in> set (tickets db')"
    then consider "r = ?row" | "r \<in> set (tickets db)" by (auto simp: db')
    then show "\<exists>t. teams db' (row_team r) = Some t \<and> row_ticket_number r \<le> ticket_head t"
    proof cases
      case 1 then show ?thesis using row by (simp add: db' next_team_def)
    next
      case 2
      note rin = this
      show ?thesis
      proof (cases "row_team r = k")
        case True with old [OF rin] show ?thesis by (simp add: db' next_team_def)
      next
        case False with ok rin show ?thesis by (auto simp: db' numbers_ok_def)
      qed
    qed
  qed
  have i3: "\<forall>r\<in>set (tickets db'). \<forall>r'\<in>set (tickets db').
         row_team r = row_team r' \<and> row_ticket_number r = row_ticket_number r' \<longrightarrow> r = r'"
  proof (intro ballI impI)
    fix r r' assume r: "r \<in> set (tickets db')" and r': "r' \<in> set (tickets db')"
      and eq: "row_team r = row_team r' \<and> row_ticket_number r = row_ticket_number r'"
    from r consider "r = ?row" | "r \<in> set (tickets db)" by (auto simp: db')
    then show "r = r'"
    proof cases
      case 1
      note rnew = this
      from r' consider "r' = ?row" | "r' \<in> set (tickets db)" by (auto simp: db')
      then show ?thesis
      proof cases
        case 1 with rnew show ?thesis by simp
      next
        case 2
        with eq rnew row old [OF 2] show ?thesis by simp
      qed
    next
      case 2
      note rin = this
      from r' consider "r' = ?row" | "r' \<in> set (tickets db)" by (auto simp: db')
      then show ?thesis
      proof cases
        case 1
        with eq row old [OF rin] show ?thesis by simp
      next
        case 2
        with rin eq uniq show ?thesis by blast
      qed
    qed
  qed
  have i4: "\<forall>r\<in>set (tickets db'). row_id r \<le> ticket_seq db'"
    using oldid row by (auto simp: db' le_SucI)
  have "numbers_ok db'" using i1 i2 i3 i4 unfolding numbers_ok_def by blast
  then show ?thesis by (simp add: db'_def)
qed

text \<open>
  C1, as the code has it. The update of the counter is a read of the team row followed,
  later, by a write of the incremented value. Create calls that run in turn keep the
  numbering sound: the two new tickets of a team get consecutive numbers, and no two
  rows of a team share a number afterwards.
\<close>

theorem creates_in_turn_distinct:
  assumes "numbers_ok db" "two_creates_in_turn db k a b = Some db'"
  shows "numbers_ok db' \<and>
         (\<exists>ra rb. tickets db' = tickets db @ [ra, rb] \<and> row_team ra = k \<and> row_team rb = k \<and>
                  row_ticket_number rb = row_ticket_number ra + 1)"
proof -
  from assms(2) obtain db1 a1 b1 where a: "create db k a = (None, db1, a1)"
    and b: "create db1 k b = (None, db', b1)"
    by (auto simp: two_creates_in_turn_def split: prod.splits option.splits)
  from create_success [OF a] obtain tm u where tm: "teams db k = Some tm"
    and u: "owner a = Some u" by blast
  from assms(1) tm have key: "team_id tm = k" by (auto simp: numbers_ok_def)
  from a create_new_row [OF tm key u] have db1: "db1 = created_db db k tm u a" by simp
  from create_success [OF b] obtain v where v: "owner b = Some v" by blast
  have tm1: "teams db1 k = Some (next_team tm)" "team_id (next_team tm) = k"
    using key by (simp_all add: db1 created_db_team)
  from b create_new_row [OF tm1 v] have db': "db' = created_db db1 k (next_team tm) v b"
    by simp
  have ok1: "numbers_ok db1" unfolding db1 by (rule created_db_numbers_ok [OF assms(1) tm])
  have ok2: "numbers_ok db'" unfolding db' by (rule created_db_numbers_ok [OF ok1 tm1(1)])
  have "\<exists>ra rb. tickets db' = tickets db @ [ra, rb] \<and> row_team ra = k \<and> row_team rb = k \<and>
                  row_ticket_number rb = row_ticket_number ra + 1"
    using key by (simp add: db' db1 created_db_def to_row_def next_team_def)
  with ok2 show ?thesis by blast
qed

theorem creates_in_turn_distinct_witness:
  "numbers_ok fresh_db \<and>
   map_option (map row_ticket_number \<circ> tickets)
     (two_creates_in_turn fresh_db 1 testing_ticket testing_ticket) = Some [1, 2] \<and>
   map_option numbers_ok (two_creates_in_turn fresh_db 1 testing_ticket testing_ticket) =
     Some True"
proof -
  have ok: "numbers_ok fresh_db"
    by (simp add: numbers_ok_def fresh_db_def bugslotics_def)
  have o: "teams fresh_db 1 = Some bugslotics" "team_id bugslotics = 1"
    "owner testing_ticket = Some 1"
    by (simp_all add: fresh_db_def bugslotics_def testing_ticket_def)
  note c1 = create_new_row [OF o]
  have o2: "teams (created_db fresh_db 1 bugslotics 1 testing_ticket) 1 = Some (next_team bugslotics)"
    "team_id (next_team bugslotics) = 1"
    by (simp_all add: created_db_team bugslotics_def)
  note c2 = create_new_row [OF o2 o(3)]
  have run: "two_creates_in_turn fresh_db 1 testing_ticket testing_ticket =
     Some (created_db (created_db fresh_db 1 bugslotics 1 testing_ticket) 1 (next_team bugslotics) 1 testing_ticket)"
    by (simp only: two_creates_in_turn_def c1 c2 prod.case option.case)
  have n: "map row_ticket_number (tickets (created_db (created_db fresh_db 1 bugslotics 1 testing_ticket) 1
             (next_team bugslotics) 1 testing_ticket)) = [1, 2]"
    by (simp add: created_db_def fresh_db_def to_row_def bugslotics_def next_team_def)
  from creates_in_turn_distinct [OF ok run] ok n show ?thesis unfolding run by simp
qed

text \<open>
  C1, as stated, fails: when both create calls have read the team row before either
  writes it, both tickets of team 1 receive the number 1.
\<close>

theorem overlapping_creates_collide:
  "map_option (map row_team \<circ> tickets)
     (two_creates_overlapping fresh_db 1 testing_ticket testing_ticket) = Some [1, 1] \<and>
   map_option (map row_id \<circ> tickets)
     (two_creates_overlapping fresh_db 1 testing_ticket testing_ticket) = Some [1, 2] \<and>
   map_option (map row_ticket_number \<circ> tickets)
     (two_creates_overlapping fresh_db 1 testing_ticket testing_ticket) = Some [1, 1]"
  by (simp add: two_creates_overlapping_def create_load_def Team_get_def fresh_db_def
      save_def Model_save_def Team_save_def to_row_def Let_def testing_ticket_def bugslotics_def)

lemma save_existing_row:
  assumes "owner tk = Some ow" "team tk = Some tm" "ticket_id tk = Some i"
    "i \<in> row_id ` set (tickets db)"
  shows "save db tk =
           (None,
            db\<lparr>teams := (teams db)(team_id tm \<mapsto> next_team tm),
               tickets := map (\<lambda>r. if row_id r = i
                    then to_row i ow (next_team tm) (ticket_head tm + 1)
                           (tk\<lparr>team := Some (next_team tm),
                               ticket_number := Some (ticket_head tm + 1)\<rparr>)
                    else r) (tickets db)\<rparr>,
            tk\<lparr>team := Some (next_team tm), ticket_number := Some (ticket_head tm + 1)\<rparr>)"
  using assms by (simp add: save_def Model_save_def Team_save_def Let_def next_team_def)

lemma resave_numbers:
  assumes f: "filter (\<lambda>x. row_id x = i) (tickets db) = [r]"
    and tk: "ticket_id tk = Some i" "owner tk = Some u" "team tk = Some tm"
  shows "\<exists>db' tk'. save db tk = (None, db', tk') \<and>
           ticket_number tk' = Some (ticket_head tm + 1) \<and>
           stored_numbers db' i = [ticket_head tm + 1] \<and>
           stored_head db' (team_id tm) = Some (ticket_head tm + 1)"
proof -
  from f have rin: "r \<in> set (filter (\<lambda>x. row_id x = i) (tickets db))" by simp
  then have "i \<in> row_id ` set (tickets db)" by auto
  note s = save_existing_row [OF tk(2) tk(3) tk(1) this]
  let ?new = "to_row i u (next_team tm) (ticket_head tm + 1)
                (tk\<lparr>team := Some (next_team tm), ticket_number := Some (ticket_head tm + 1)\<rparr>)"
  let ?f = "\<lambda>r. if row_id r = i then ?new else r"
  have id: "row_id ?new = i" "row_ticket_number ?new = ticket_head tm + 1"
    by (simp_all add: to_row_def)
  have "filter (\<lambda>x. row_id x = i) (map ?f (tickets db)) =
        map ?f (filter (\<lambda>x. row_id x = i) (tickets db))"
    by (induction "tickets db" arbitrary: db) (auto simp: filter_map o_def id)
  then have "filter (\<lambda>x. row_id x = i) (map ?f (tickets db)) = map ?f [r]" using f by simp
  moreover from rin have "row_id r = i"
    by simp
  ultimately have n: "map row_ticket_number (filter (\<lambda>x. row_id x = i) (map ?f (tickets db)))
       = [ticket_head tm + 1]"
    using id by simp
  show ?thesis using n by (simp add: s stored_numbers_def stored_head_def next_team_def)
qed


text \<open>
  C2, as the code has it. Every save assigns a number: saving a stored ticket again,
  with whatever change of its other fields, increments the team's counter by one and
  replaces the ticket's number by the new counter value; the delete operation, which
  sets \<open>deactivated\<close> and saves, does so too.
\<close>

theorem resave_takes_next_number:
  assumes f: "filter (\<lambda>x. row_id x = i) (tickets db) = [r]"
    and tm: "teams db (row_team r) = Some tm" "team_id tm = row_team r"
  shows "(\<forall>tk. ticket_id tk = Some i \<and> owner tk \<noteq> None \<and> team tk = Some tm \<longrightarrow>
            (\<exists>db' tk'. save db tk = (None, db', tk') \<and>
               ticket_number tk' = Some (ticket_head tm + 1) \<and>
               stored_numbers db' i = [ticket_head tm + 1] \<and>
               stored_head db' (row_team r) = Some (ticket_head tm + 1))) \<and>
         (\<exists>db'. delete db now i = (Inr (Response ''okay'' 200), db') \<and>
               stored_numbers db' i = [ticket_head tm + 1] \<and>
               stored_head db' (row_team r) = Some (ticket_head tm + 1))"
proof
  show "\<forall>tk. ticket_id tk = Some i \<and> owner tk \<noteq> None \<and> team tk = Some tm \<longrightarrow>
            (\<exists>db' tk'. save db tk = (None, db', tk') \<and>
               ticket_number tk' = Some (ticket_head tm + 1) \<and>
               stored_numbers db' i = [ticket_head tm + 1] \<and>
               stored_head db' (row_team r) = Some (ticket_head tm + 1))"
    using resave_numbers [OF f] tm(2) by (metis not_None_eq)
next
  let ?tk = "(from_row db r)\<lparr>deactivated := Some now\<rparr>"
  from f have rid: "row_id r = i"
    by (metis (mono_tags, lifting) filter_eq_ConsD)
  have tk: "ticket_id ?tk = Some i" "owner ?tk = Some (row_owner r)" "team ?tk = Some tm"
    using tm rid by (simp_all add: from_row_def)
  from resave_numbers [OF f tk] obtain db' tk' where
    s: "save db ?tk = (None, db', tk')" and
    n: "stored_numbers db' i = [ticket_head tm + 1]"
       "stored_head db' (team_id tm) = Some (ticket_head tm + 1)" by blast
  have "delete db now i = (Inr (Response ''okay'' 200), db')"
    by (simp add: delete_def get_ticket_or_404_def f s)
  with n tm(2) show "\<exists>db'. delete db now i = (Inr (Response ''okay'' 200), db') \<and>
               stored_numbers db' i = [ticket_head tm + 1] \<and>
               stored_head db' (row_team r) = Some (ticket_head tm + 1)" by simp
qed

theorem resave_takes_next_number_witness:
  "stored_numbers stored_db 1 = [1] \<and> stored_head stored_db 1 = Some 1 \<and>
   (\<exists>db'. delete stored_db 7 1 = (Inr (Response ''okay'' 200), db') \<and>
          stored_numbers db' 1 = [2] \<and> stored_head db' 1 = Some 2) \<and>
   (\<exists>db' tk'. save stored_db ((from_row stored_db stored_row)\<lparr>title := ''Erit Lux''\<rparr>) =
            (None, db', tk') \<and>
          ticket_number tk' = Some 2 \<and> stored_numbers db' 1 = [2] \<and>
          stored_head db' 1 = Some 2)"
proof -
  let ?tk = "(from_row stored_db stored_row)\<lparr>title := ''Erit Lux''\<rparr>"
  have tk: "ticket_id ?tk = Some 1 \<and> owner ?tk \<noteq> None \<and>
      team ?tk = Some (bugslotics\<lparr>ticket_head := 1\<rparr>)"
    by (simp add: from_row_def stored_db_def stored_row_def)
  have f: "filter (\<lambda>x. row_id x = 1) (tickets stored_db) = [stored_row]"
    by (simp add: stored_db_def stored_row_def)
  have tm: "teams stored_db (row_team stored_row) = Some (bugslotics\<lparr>ticket_head := 1\<rparr>)"
    "team_id (bugslotics\<lparr>ticket_head := 1\<rparr>) = row_team stored_row"
    by (simp_all add: stored_db_def stored_row_def bugslotics_def)
  have b: "stored_numbers stored_db 1 = [1] \<and> stored_head stored_db 1 = Some 1"
    by (simp add: stored_numbers_def stored_head_def stored_db_def stored_row_def)
  have r: "row_team stored_row = 1" by (simp add: stored_row_def)
  from resave_takes_next_number [OF f tm, of 7] b tk show ?thesis
    unfolding r by auto
qed

text \<open>
  C2, as stated, fails: deactivating the one ticket of \<open>stored_db\<close>, which has the
  number 1 under a counter of 1, leaves it with the number 2 under a counter of 2.
\<close>

theorem delete_renumbers:
  "stored_numbers stored_db 1 = [1] \<and> stored_head stored_db 1 = Some 1 \<and>
   stored_numbers (snd (delete stored_db 7 1)) 1 = [2] \<and>
   stored_head (snd (delete stored_db 7 1)) 1 = Some 2"
  by (simp add: stored_numbers_def stored_head_def delete_def get_ticket_or_404_def from_row_def
      save_def Model_save_def Team_save_def to_row_def Let_def stored_db_def stored_row_def
      bugslotics_def)

section \<open>Properties of the tag associations\<close>

lemma attached_attach_all:
  "attached (foldl (attach now t tm) st gs) t = attached st t @ gs"
  by (induction gs arbitrary: st) (simp_all add: attached_def attach_def)

lemma records_of_attach_all:
  "b \<notin> set gs \<Longrightarrow> records_of (foldl (attach now t tm) st gs) t b = records_of st t b"
  by (induction gs arbitrary: st) (simp_all add: records_of_def attach_def)

lemma attached_reconcile:
  "set (attached (reconcile st now t tm desired) t) = set desired"
  by (auto simp: reconcile_def Let_def attached_attach_all) (auto simp: attached_def)

lemma records_of_reconcile:
  assumes "b \<in> set desired" "b \<in> set (attached st t)"
  shows "records_of (reconcile st now t tm desired) t b = records_of st t b"
proof -
  have "b \<notin> set (remdups (filter (\<lambda>g. g \<notin> set (attached st t)) desired))"
    using assms by simp
  then show ?thesis
    using assms(1)
    by (simp add: reconcile_def Let_def records_of_attach_all)
       (auto simp: records_of_def intro: filter_cong)
qed

lemma records_of_nonempty:
  "b \<in> set (attached st t) \<Longrightarrow> records_of st t b \<noteq> []"
  by (auto simp: attached_def records_of_def filter_empty_conv)

text \<open>
  C6. After a reconcile to the tags \<open>xs\<close> followed by a reconcile to the tags \<open>ys\<close>,
  the ticket has exactly the tags \<open>ys\<close>, and for every tag in both lists the association
  records after the second call are the records left by the first call (same key, same
  creation time), of which there is at least one. With \<open>xs = {A, B}\<close> and
  \<open>ys = {B, C}\<close> this is the claim about \<open>B\<close>.
\<close>

theorem reconcile_keeps_common_records:
  "set (attached (reconcile (reconcile st n1 t tm xs) n2 t tm ys) t) = set ys \<and>
   (\<forall>b\<in>set xs \<inter> set ys.
      records_of (reconcile (reconcile st n1 t tm xs) n2 t tm ys) t b =
        records_of (reconcile st n1 t tm xs) t b \<and>
      records_of (reconcile st n1 t tm xs) t b \<noteq> [])"
proof (intro conjI ballI)
  show "set (attached (reconcile (reconcile st n1 t tm xs) n2 t tm ys) t) = set ys"
    by (rule attached_reconcile)
next
  fix b assume b: "b \<in> set xs \<inter> set ys"
  then have a: "b \<in> set (attached (reconcile st n1 t tm xs) t)"
    by (simp add: attached_reconcile)
  with b show "records_of (reconcile (reconcile st n1 t tm xs) n2 t tm ys) t b =
        records_of (reconcile st n1 t tm xs) t b"
    by (simp add: records_of_reconcile)
  from a show "records_of (reconcile st n1 t tm xs) t b \<noteq> []"
    by (rule records_of_nonempty)
qed

theorem reconcile_keeps_common_records_witness:
  "set (attached (reconcile (reconcile no_tags 10 1 1 [1, 2]) 20 1 1 [2, 3]) 1) = {2, 3} \<and>
   records_of (reconcile (reconcile no_tags 10 1 1 [1, 2]) 20 1 1 [2, 3]) 1 2 =
     records_of (reconcile no_tags 10 1 1 [1, 2]) 1 2 \<and>
   map assoc_created (records_of (reconcile (reconcile no_tags 10 1 1 [1, 2]) 20 1 1 [2, 3]) 1 2) = [10] \<and>
   map assoc_created (records_of (reconcile (reconcile no_tags 10 1 1 [1, 2]) 20 1 1 [2, 3]) 1 3) = [20]"
proof -
  have c: "map assoc_created (records_of (reconcile (reconcile no_tags 10 1 1 [1, 2]) 20 1 1 [2, 3]) 1 2) = [10]"
    "map assoc_created (records_of (reconcile (reconcile no_tags 10 1 1 [1, 2]) 20 1 1 [2, 3]) 1 3) = [20]"
    by (simp_all add: reconcile_def no_tags_def attached_def attach_def records_of_def Let_def)
  from reconcile_keeps_common_records [of no_tags 10 1 1 "[1, 2]" 20 "[2, 3]"] c
  show ?thesis by simp
qed

section \<open>Properties of the ticket tree\<close>

lemma parent_relI: "map_of tr x = Some (Some p) \<Longrightarrow> (x, p) \<in> parent_rel tr"
  by (auto simp: parent_rel_def dest: map_of_SomeD)

lemma parent_relD:
  "distinct (map fst tr) \<Longrightarrow> (x, p) \<in> parent_rel tr \<Longrightarrow> map_of tr x = Some (Some p)"
  by (simp add: parent_rel_def)

lemma chain_Suc_Some:
  "map_of tr x = Some (Some p) \<Longrightarrow> chain (Suc n) tr x = p # chain n tr p"
  by simp

lemma chain_Suc_None:
  "\<forall>p. map_of tr x \<noteq> Some (Some p) \<Longrightarrow> chain (Suc n) tr x = []"
  by (auto split: option.splits)

lemma up_cases:
  obtains (step) p where "map_of tr x = Some (Some p)"
  | (stop) "\<forall>p. map_of tr x \<noteq> Some (Some p)"
  by blast

lemma chain_sound: "y \<in> set (chain n tr x) \<Longrightarrow> (x, y) \<in> (parent_rel tr)\<^sup>+"
proof (induction n arbitrary: x)
  case 0
  then show ?case by simp
next
  case (Suc n)
  show ?case
  proof (cases tr x rule: up_cases)
    case (step p)
    from step have xp: "(x, p) \<in> parent_rel tr" by (rule parent_relI)
    from Suc.prems have "y = p \<or> y \<in> set (chain n tr p)"
      unfolding chain_Suc_Some [OF step] by simp
    then show ?thesis
    proof
      assume "y = p" with xp show ?thesis by auto
    next
      assume "y \<in> set (chain n tr p)"
      then have "(p, y) \<in> (parent_rel tr)\<^sup>+" by (rule Suc.IH)
      with xp show ?thesis by (rule trancl_into_trancl2)
    qed
  next
    case stop
    with Suc.prems show ?thesis unfolding chain_Suc_None [OF stop] by simp
  qed
qed

lemma chain_reaches:
  assumes d: "distinct (map fst tr)" and r: "(x, y) \<in> (parent_rel tr)\<^sup>+"
  shows "\<exists>n. y \<in> set (chain n tr x)"
  using r
proof (induction rule: converse_trancl_induct)
  case (base x)
  then have "map_of tr x = Some (Some y)" using d by (simp add: parent_relD)
  then have "y \<in> set (chain (Suc 0) tr x)" by simp
  then show ?case by blast
next
  case (step x z)
  then obtain n where n: "y \<in> set (chain n tr z)" by blast
  from step(1) have "map_of tr x = Some (Some z)" using d by (simp add: parent_relD)
  with n have "y \<in> set (chain (Suc n) tr x)" by simp
  then show ?case by blast
qed

lemma chain_take: "chain n tr x = take n (chain (n + k) tr x)"
  by (induction n arbitrary: x) (auto split: option.splits)

lemma chain_distinct:
  assumes "acyclic (parent_rel tr)"
  shows "distinct (x # chain n tr x)"
proof (induction n arbitrary: x)
  case 0
  then show ?case by simp
next
  case (Suc n)
  have notin: "x \<notin> set (chain (Suc n) tr x)"
    using chain_sound [of x "Suc n" tr x] assms by (auto simp: acyclic_def)
  show ?case
  proof (cases tr x rule: up_cases)
    case (step p)
    from Suc.IH [of p] notin show ?thesis unfolding chain_Suc_Some [OF step] by simp
  next
    case stop
    show ?thesis unfolding chain_Suc_None [OF stop] by simp
  qed
qed

lemma chain_butlast_keys: "set (butlast (x # chain n tr x)) \<subseteq> fst ` set tr"
proof (induction n arbitrary: x)
  case 0
  then show ?case by simp
next
  case (Suc n)
  show ?case
  proof (cases tr x rule: up_cases)
    case (step p)
    then have "x \<in> fst ` set tr" by (metis map_of_SomeD fst_conv image_eqI)
    with Suc.IH [of p] show ?thesis unfolding chain_Suc_Some [OF step] by simp
  next
    case stop
    show ?thesis unfolding chain_Suc_None [OF stop] by simp
  qed
qed

lemma chain_length:
  assumes "acyclic (parent_rel tr)"
  shows "length (chain n tr x) \<le> length tr"
proof -
  have "distinct (butlast (x # chain n tr x))"
    using chain_distinct [OF assms] by (rule distinct_butlast)
  then have "length (butlast (x # chain n tr x)) = card (set (butlast (x # chain n tr x)))"
    by (simp add: distinct_card)
  also have "\<dots> \<le> card (fst ` set tr)"
    by (rule card_mono) (use chain_butlast_keys [of x n tr] in simp_all)
  also have "\<dots> \<le> length tr"
    by (metis card_image_le card_length le_trans List.finite_set)
  finally have "length (butlast (x # chain n tr x)) \<le> length tr" .
  moreover have "length (butlast (x # chain n tr x)) = length (chain n tr x)"
    by (simp only: length_butlast length_Cons diff_Suc_1)
  ultimately show ?thesis by simp
qed

lemma chain_complete:
  assumes d: "distinct (map fst tr)" and a: "acyclic (parent_rel tr)"
    and r: "(x, y) \<in> (parent_rel tr)\<^sup>+"
  shows "y \<in> set (chain (length tr) tr x)"
proof -
  from chain_reaches [OF d r] obtain n where n: "y \<in> set (chain n tr x)" by blast
  show ?thesis
  proof (cases "n \<le> length tr")
    case True
    then obtain k where "length tr = n + k" by (metis le_Suc_ex)
    then have "chain n tr x = take n (chain (length tr) tr x)" by (simp add: chain_take)
    with n show ?thesis by (metis in_set_takeD)
  next
    case False
    then obtain k where k: "n = length tr + k" by (metis le_Suc_ex nat_le_linear)
    have "chain (length tr) tr x = take (length tr) (chain n tr x)"
      unfolding k by (rule chain_take)
    also have "\<dots> = chain n tr x" using chain_length [OF a, of n x] by simp
    finally show ?thesis using n by simp
  qed
qed

lemma is_descendant_of_iff:
  assumes "wf_tree tr"
  shows "is_descendant_of tr x y \<longleftrightarrow> (x, y) \<in> (parent_rel tr)\<^sup>+"
  using assms chain_sound chain_complete
  by (auto simp: is_descendant_of_def wf_tree_def)

lemma ancestors_of_iff:
  assumes "wf_tree tr"
  shows "y \<in> set (ancestors_of tr x) \<longleftrightarrow> (x, y) \<in> (parent_rel tr)\<^sup>+"
  using assms chain_sound chain_complete
  by (auto simp: ancestors_of_def wf_tree_def)

lemma not_own_ancestor: "wf_tree tr \<Longrightarrow> x \<notin> set (ancestors_of tr x)"
  by (simp add: ancestors_of_iff) (simp add: wf_tree_def acyclic_def)

lemma nodes_of_single:
  assumes "nodes_of tr t = [n]"
  shows "n \<in> set tr" "fst n = t"
proof -
  have "n \<in> set (nodes_of tr t)" using assms by simp
  then show "n \<in> set tr" "fst n = t" by (simp_all add: nodes_of_def)
qed

lemma nodes_of_empty: "nodes_of tr t = [] \<longleftrightarrow> t \<notin> fst ` set tr"
  by (auto simp: nodes_of_def filter_empty_conv)

lemma nodes_of_root_only:
  assumes n: "nodes_of tr x = [n]" and r: "is_root n"
  shows "(x, Some q) \<notin> set tr"
proof
  assume "(x, Some q) \<in> set tr"
  then have "(x, Some q) \<in> set (nodes_of tr x)" by (simp add: nodes_of_def)
  with n have "n = (x, Some q)" by simp
  with r show False by (simp add: is_root_def)
qed

lemma parent_rel_append: "parent_rel (tr @ [(c, Some p)]) = insert (c, p) (parent_rel tr)"
  by (auto simp: parent_rel_def)

lemma parent_rel_filter_root:
  assumes "nodes_of tr x = [n]" "is_root n"
  shows "parent_rel (filter (\<lambda>n. fst n \<noteq> x) tr) = parent_rel tr"
  using nodes_of_root_only [OF assms] by (auto simp: parent_rel_def)

lemma parent_rel_range:
  assumes "wf_tree tr" "(a, b) \<in> (parent_rel tr)\<^sup>+"
  shows "b \<in> fst ` set tr"
proof -
  from assms(2) obtain z where "(z, b) \<in> parent_rel tr" by (metis tranclD2)
  then have "(z, Some b) \<in> set tr" by (simp add: parent_rel_def)
  with assms(1) show ?thesis unfolding wf_tree_def by (metis snd_conv)
qed

lemma add_child_Inr:
  "add_child lim tr parent child = Inr tr' \<Longrightarrow>
     snd parent = snd child \<and> fst parent \<noteq> fst child \<and>
     \<not> is_descendant_of tr (fst parent) (fst child) \<and>
     tr' = filter (\<lambda>n. fst n \<noteq> fst child) tr @ [(fst child, Some (fst parent))]"
  by (simp add: add_child_def split: if_splits)

lemma filter_absent:
  assumes "c \<notin> fst ` set tr"
  shows "filter (\<lambda>n. fst n \<noteq> c) tr = tr"
  using assms by (induction tr) auto

lemma wf_append_child:
  assumes wf: "wf_tree tr" and p: "p \<in> fst ` set tr" and c: "c \<notin> fst ` set tr"
  shows "wf_tree (tr @ [(c, Some p)])"
proof -
  have "p \<noteq> c" using p c by auto
  moreover have "(p, c) \<notin> (parent_rel tr)\<^sup>+" using parent_rel_range [OF wf] c by blast
  ultimately have "(p, c) \<notin> (parent_rel tr)\<^sup>*" by (simp add: rtrancl_eq_or_trancl)
  then have "acyclic (parent_rel (tr @ [(c, Some p)]))"
    using wf by (simp add: parent_rel_append wf_tree_def)
  moreover have "distinct (map fst (tr @ [(c, Some p)]))" using wf c by (simp add: wf_tree_def)
  moreover have "\<forall>n\<in>set (tr @ [(c, Some p)]). \<forall>q. snd n = Some q \<longrightarrow> q \<in> fst ` set (tr @ [(c, Some p)])"
    using wf p by (auto simp: wf_tree_def)
  ultimately show ?thesis by (simp add: wf_tree_def)
qed

lemma wf_add_child:
  assumes wf: "wf_tree tr" and p: "fst parent \<in> fst ` set tr" and c: "fst child \<notin> fst ` set tr"
    and a: "add_child lim tr parent child = Inr tr'"
  shows "wf_tree tr'"
  using add_child_Inr [OF a] wf_append_child [OF wf p c] filter_absent [OF c] by simp

lemma no_node_no_descendant:
  assumes wf: "wf_tree tr" and c: "c \<notin> fst ` set tr"
  shows "\<not> is_descendant_of tr p c"
  using parent_rel_range [OF wf] c by (auto simp: is_descendant_of_iff [OF wf])

lemma move_Inr:
  "move lim tr node target = Inr tr' \<Longrightarrow>
     fst target \<noteq> fst node \<and> \<not> is_descendant_of tr (fst target) (fst node) \<and>
     tr' = filter (\<lambda>n. fst n \<noteq> fst node) tr @ [(fst node, Some (fst target))]"
  by (simp add: move_def split: if_splits)

lemma wf_move:
  assumes wf: "wf_tree tr" and n: "nodes_of tr (fst node) = [n]" and r: "is_root n"
    and p: "fst target \<in> fst ` set tr" and m: "move lim tr node target = Inr tr'"
  shows "wf_tree tr'"
proof -
  let ?x = "fst node" and ?p = "fst target"
  from move_Inr [OF m] have px: "?p \<noteq> ?x" and nd: "\<not> is_descendant_of tr ?p ?x"
    and tr': "tr' = filter (\<lambda>n. fst n \<noteq> ?x) tr @ [(?x, Some ?p)]"
    by simp_all
  from nd have "(?p, ?x) \<notin> (parent_rel tr)\<^sup>+" by (simp add: is_descendant_of_iff [OF wf])
  with px have "(?p, ?x) \<notin> (parent_rel tr)\<^sup>*" by (simp add: rtrancl_eq_or_trancl)
  then have a: "acyclic (parent_rel tr')"
    using wf by (simp add: tr' parent_rel_append parent_rel_filter_root [OF n r] wf_tree_def)
  have d: "distinct (map fst tr')"
    using wf by (auto simp: tr' wf_tree_def distinct_map_filter)
  have x: "?x \<in> fst ` set tr" using nodes_of_single [OF n] by (metis image_eqI)
  have keys: "fst ` set tr' = fst ` set tr" using x by (auto simp: tr')
  have c: "\<forall>n\<in>set tr'. \<forall>q. snd n = Some q \<longrightarrow> q \<in> fst ` set tr'"
    unfolding keys using wf p by (auto simp: tr' wf_tree_def)
  from a d c show ?thesis by (simp add: wf_tree_def)
qed

lemma pk_nodes_single:
  assumes "pk_nodes tr tk = [n]"
  shows "ticket_id tk = Some (fst n)" "nodes_of tr (fst n) = [n]"
  using assms nodes_of_single(2) [of tr _ n]
  by (auto simp: pk_nodes_def split: option.splits)

lemma wf_add_subticket:
  assumes wf: "wf_tree tr"
  shows "wf_tree (snd (add_subticket lim tr parent child))"
proof (cases "pk_nodes tr parent")
  case Nil
  then show ?thesis using wf by (simp add: add_subticket_def)
next
  case (Cons pn ps)
  show ?thesis
  proof (cases ps)
    case (Cons a list)
    with \<open>pk_nodes tr parent = pn # ps\<close> show ?thesis using wf by (simp add: add_subticket_def)
  next
    case Nil
    with \<open>pk_nodes tr parent = pn # ps\<close> have P: "pk_nodes tr parent = [pn]" by simp
    have pin: "fst pn \<in> fst ` set tr"
      using nodes_of_single(1) [OF pk_nodes_single(2) [OF P]] by blast
    show ?thesis
    proof (cases "pk_nodes tr child")
      case Nil
      show ?thesis
      proof (cases "ticket_id child")
        case None
        with Nil P show ?thesis using wf by (simp add: add_subticket_def)
      next
        case (Some c)
        with Nil have c: "c \<notin> fst ` set tr" by (simp add: pk_nodes_def nodes_of_empty)
        show ?thesis
        proof (cases "add_child lim tr (fst pn, team_key parent) (c, team_key child)")
          case (Inl e)
          with Nil P Some show ?thesis using wf by (simp add: add_subticket_def)
        next
          case (Inr tr')
          have "wf_tree tr'" by (rule wf_add_child [OF wf _ _ Inr]) (use pin c in simp_all)
          with Inr Nil P Some show ?thesis by (simp add: add_subticket_def)
        qed
      qed
    next
      case (Cons cn cs)
      show ?thesis
      proof (cases cs)
        case (Cons a list)
        with \<open>pk_nodes tr child = cn # cs\<close> P show ?thesis using wf
          by (simp add: add_subticket_def)
      next
        case Nil
        with \<open>pk_nodes tr child = cn # cs\<close> have C: "pk_nodes tr child = [cn]" by simp
        show ?thesis
        proof (cases "is_root cn")
          case False
          with C P show ?thesis using wf by (simp add: add_subticket_def)
        next
          case True
          show ?thesis
          proof (cases "move lim tr (fst cn, team_key child) (fst pn, team_key parent)")
            case (Inl e)
            with True C P show ?thesis using wf by (simp add: add_subticket_def)
          next
            case (Inr tr')
            have "wf_tree tr'"
              by (rule wf_move [OF wf _ True _ Inr]) (use pk_nodes_single(2) [OF C] pin in simp_all)
            then show ?thesis using Inr True C P by (simp add: add_subticket_def)
          qed
        qed
      qed
    qed
  qed
qed

lemma wf_add_subtickets: "wf_tree tr \<Longrightarrow> wf_tree (add_subtickets lim tr calls)"
  by (induction calls arbitrary: tr) (auto simp: wf_add_subticket)

lemma map_of_moved:
  "map_of (filter (\<lambda>n. fst n \<noteq> c) tr @ [(c, Some p)]) c = Some (Some p)"
proof -
  have "map_of (filter (\<lambda>n. fst n \<noteq> c) tr) c = None"
    by (simp add: map_of_eq_None_iff image_iff)
  then show ?thesis by (simp add: map_add_def)
qed

lemma parent_is_ancestor:
  assumes "map_of tr c = Some (Some p)"
  shows "p \<in> set (ancestors_of tr c)"
proof -
  from assms have "tr \<noteq> []" by auto
  then obtain k where "length tr = Suc k" by (cases tr) auto
  with assms show ?thesis by (simp add: ancestors_of_def)
qed

lemma placed_below:
  "p \<in> set (ancestors_of (filter (\<lambda>n. fst n \<noteq> c) tr @ [(c, Some p)]) c) \<and>
   c \<in> set (get_children (filter (\<lambda>n. fst n \<noteq> c) tr @ [(c, Some p)]) p)"
  by (simp add: parent_is_ancestor [OF map_of_moved] get_children_def)

text \<open>
  C3, as the code has it. When the parent has a node, the call is a case split on the
  child. A child that is a root is moved to be the last child of the parent, and the
  parent is then among its ancestors, unless the move fails: when the parent is the child
  itself or one of its descendants, and when the new position exceeds the limits of the
  backend, the call answers "invalid tree operation"; when the two tickets are of
  different teams, it raises \<open>CrossTeamViolation\<close>. A child that has a node and is not a
  root is refused with "ticket already part of a graph". A child without node is
  inserted as the last child of the parent, unless the teams differ
  (\<open>CrossTeamViolation\<close>) or the position exceeds the limits ("invalid tree
  operation"). Whenever the call fails, the tree stays as it was.
\<close>

theorem add_subticket_cases:
  assumes P: "pk_nodes tr parent = [pn]"
  shows
   "(pk_nodes tr child = [cn] \<and> is_root cn \<and>
       (fst pn = fst cn \<or> is_descendant_of tr (fst pn) (fst cn)) \<longrightarrow>
     add_subticket lim tr parent child = (Inr (Response ''invalid tree operation'' 400), tr)) \<and>
    (pk_nodes tr child = [cn] \<and> is_root cn \<and> fst pn \<noteq> fst cn \<and>
       \<not> is_descendant_of tr (fst pn) (fst cn) \<and> team_key parent \<noteq> team_key child \<longrightarrow>
     add_subticket lim tr parent child = (Inl CrossTeamViolation, tr)) \<and>
    (pk_nodes tr child = [cn] \<and> is_root cn \<and> fst pn \<noteq> fst cn \<and>
       \<not> is_descendant_of tr (fst pn) (fst cn) \<and> team_key parent = team_key child \<and>
       overflows lim tr (fst cn) (fst pn) \<longrightarrow>
     add_subticket lim tr parent child = (Inr (Response ''invalid tree operation'' 400), tr)) \<and>
    (pk_nodes tr child = [cn] \<and> is_root cn \<and> fst pn \<noteq> fst cn \<and>
       \<not> is_descendant_of tr (fst pn) (fst cn) \<and> team_key parent = team_key child \<and>
       \<not> overflows lim tr (fst cn) (fst pn) \<longrightarrow>
     add_subticket lim tr parent child =
       (Inr (Response ''okay'' 200),
        filter (\<lambda>n. fst n \<noteq> fst cn) tr @ [(fst cn, Some (fst pn))]) \<and>
     fst pn \<in> set (ancestors_of (snd (add_subticket lim tr parent child)) (fst cn)) \<and>
     fst cn \<in> set (get_children (snd (add_subticket lim tr parent child)) (fst pn))) \<and>
    (pk_nodes tr child = [cn] \<and> \<not> is_root cn \<longrightarrow>
     add_subticket lim tr parent child =
       (Inr (Response ''ticket already part of a graph'' 400), tr)) \<and>
    (pk_nodes tr child = [] \<and> ticket_id child = Some c \<and>
       team_key parent \<noteq> team_key child \<longrightarrow>
     add_subticket lim tr parent child = (Inl CrossTeamViolation, tr)) \<and>
    (wf_tree tr \<and> pk_nodes tr child = [] \<and> ticket_id child = Some c \<and>
       team_key parent = team_key child \<and> overflows lim tr c (fst pn) \<longrightarrow>
     add_subticket lim tr parent child = (Inr (Response ''invalid tree operation'' 400), tr)) \<and>
    (wf_tree tr \<and> pk_nodes tr child = [] \<and> ticket_id child = Some c \<and>
       team_key parent = team_key child \<and> \<not> overflows lim tr c (fst pn) \<longrightarrow>
     add_subticket lim tr parent child =
       (Inr (Response ''okay'' 200), tr @ [(c, Some (fst pn))]) \<and>
     fst pn \<in> set (ancestors_of (snd (add_subticket lim tr parent child)) c) \<and>
     c \<in> set (get_children (snd (add_subticket lim tr parent child)) (fst pn)))"
proof (intro conjI impI)
  assume "pk_nodes tr child = [cn] \<and> is_root cn \<and>
       (fst pn = fst cn \<or> is_descendant_of tr (fst pn) (fst cn))"
  then show "add_subticket lim tr parent child =
      (Inr (Response ''invalid tree operation'' 400), tr)"
    using P by (auto simp: add_subticket_def move_def caught_def)
next
  assume "pk_nodes tr child = [cn] \<and> is_root cn \<and> fst pn \<noteq> fst cn \<and>
       \<not> is_descendant_of tr (fst pn) (fst cn) \<and> team_key parent \<noteq> team_key child"
  then show "add_subticket lim tr parent child = (Inl CrossTeamViolation, tr)"
    using P by (simp add: add_subticket_def move_def caught_def)
next
  assume "pk_nodes tr child = [cn] \<and> is_root cn \<and> fst pn \<noteq> fst cn \<and>
       \<not> is_descendant_of tr (fst pn) (fst cn) \<and> team_key parent = team_key child \<and>
       overflows lim tr (fst cn) (fst pn)"
  then show "add_subticket lim tr parent child =
      (Inr (Response ''invalid tree operation'' 400), tr)"
    using P by (simp add: add_subticket_def move_def caught_def)
next
  assume "pk_nodes tr child = [cn] \<and> is_root cn \<and> fst pn \<noteq> fst cn \<and>
       \<not> is_descendant_of tr (fst pn) (fst cn) \<and> team_key parent = team_key child \<and>
       \<not> overflows lim tr (fst cn) (fst pn)"
  then show r: "add_subticket lim tr parent child =
       (Inr (Response ''okay'' 200),
        filter (\<lambda>n. fst n \<noteq> fst cn) tr @ [(fst cn, Some (fst pn))])"
    using P by (simp add: add_subticket_def move_def)
  show "fst pn \<in> set (ancestors_of (snd (add_subticket lim tr parent child)) (fst cn))"
    "fst cn \<in> set (get_children (snd (add_subticket lim tr parent child)) (fst pn))"
    unfolding r by (simp_all add: placed_below)
next
  assume "pk_nodes tr child = [cn] \<and> \<not> is_root cn"
  then show "add_subticket lim tr parent child =
       (Inr (Response ''ticket already part of a graph'' 400), tr)"
    using P by (simp add: add_subticket_def)
next
  assume "pk_nodes tr child = [] \<and> ticket_id child = Some c \<and>
       team_key parent \<noteq> team_key child"
  then show "add_subticket lim tr parent child = (Inl CrossTeamViolation, tr)"
    using P by (simp add: add_subticket_def add_child_def caught_def)
next
  assume a: "wf_tree tr \<and> pk_nodes tr child = [] \<and> ticket_id child = Some c \<and>
       team_key parent = team_key child \<and> overflows lim tr c (fst pn)"
  then have n: "nodes_of tr c = []" by (auto simp: pk_nodes_def)
  then have c: "c \<notin> fst ` set tr" by (simp add: nodes_of_empty)
  have "fst pn \<in> fst ` set tr"
    using nodes_of_single(1) [OF pk_nodes_single(2) [OF P]] by blast
  with c have ne: "fst pn \<noteq> c" by auto
  have nd: "\<not> is_descendant_of tr (fst pn) c"
    using a c by (simp add: no_node_no_descendant)
  show "add_subticket lim tr parent child =
      (Inr (Response ''invalid tree operation'' 400), tr)"
    using P a n ne nd by (simp add: add_subticket_def add_child_def caught_def)
next
  assume a: "wf_tree tr \<and> pk_nodes tr child = [] \<and> ticket_id child = Some c \<and>
       team_key parent = team_key child \<and> \<not> overflows lim tr c (fst pn)"
  then have n: "nodes_of tr c = []" by (auto simp: pk_nodes_def)
  then have c: "c \<notin> fst ` set tr" by (simp add: nodes_of_empty)
  have "fst pn \<in> fst ` set tr"
    using nodes_of_single(1) [OF pk_nodes_single(2) [OF P]] by blast
  with c have ne: "fst pn \<noteq> c" by auto
  have nd: "\<not> is_descendant_of tr (fst pn) c"
    using a c by (simp add: no_node_no_descendant)
  have r': "add_subticket lim tr parent child =
       (Inr (Response ''okay'' 200), filter (\<lambda>n. fst n \<noteq> c) tr @ [(c, Some (fst pn))])"
    using P a n ne nd by (simp add: add_subticket_def add_child_def)
  then show "add_subticket lim tr parent child =
       (Inr (Response ''okay'' 200), tr @ [(c, Some (fst pn))])"
    by (simp add: filter_absent [OF c])
  show "fst pn \<in> set (ancestors_of (snd (add_subticket lim tr parent child)) c)"
    "c \<in> set (get_children (snd (add_subticket lim tr parent child)) (fst pn))"
    unfolding r' by (simp_all add: placed_below)
qed

lemmas tree_examples = ticket_A_def ticket_B_def ticket_C_def ticket_D_def ticket_E_def
  only_A_def two_roots_def A_over_B_def A_over_B_and_D_def roots_of_two_teams_def
  A_and_C_over_E_def testing_ticket_def other_team_def bugslotics_def small_backend_def
  pk_nodes_def nodes_of_def is_root_def is_descendant_of_def team_key_def overflows_def
  depth_def height_def subtree_def get_children_def

lemma wf_only_A: "wf_tree only_A"
proof -
  have "parent_rel only_A = {}" by (auto simp: parent_rel_def only_A_def)
  then show ?thesis by (simp add: wf_tree_def acyclic_def) (simp add: only_A_def)
qed

lemma wf_two_roots: "wf_tree two_roots"
proof -
  have "parent_rel two_roots = {}" by (auto simp: parent_rel_def two_roots_def)
  then show ?thesis by (simp add: wf_tree_def acyclic_def) (simp add: two_roots_def)
qed

lemma wf_A_over_B: "wf_tree A_over_B"
proof -
  have "A_over_B = only_A @ [(2, Some 1)]" by (simp add: A_over_B_def only_A_def)
  moreover have "wf_tree (only_A @ [(2, Some 1)])"
    by (rule wf_append_child [OF wf_only_A]) (simp_all add: only_A_def)
  ultimately show ?thesis by simp
qed

theorem add_subticket_cases_witness:
  "add_subticket small_backend A_over_B ticket_B ticket_A =
     (Inr (Response ''invalid tree operation'' 400), A_over_B) \<and>
   add_subticket small_backend roots_of_two_teams ticket_A ticket_C =
     (Inl CrossTeamViolation, roots_of_two_teams) \<and>
   add_subticket small_backend A_over_B_and_D ticket_A ticket_D =
     (Inr (Response ''invalid tree operation'' 400), A_over_B_and_D) \<and>
   add_subticket small_backend two_roots ticket_A ticket_B =
     (Inr (Response ''okay'' 200), A_over_B) \<and>
   1 \<in> set (ancestors_of A_over_B 2) \<and> get_children A_over_B 1 = [2] \<and>
   add_subticket small_backend A_over_B ticket_A ticket_B =
     (Inr (Response ''ticket already part of a graph'' 400), A_over_B) \<and>
   add_subticket small_backend only_A ticket_A ticket_C = (Inl CrossTeamViolation, only_A) \<and>
   add_subticket small_backend A_over_B ticket_B ticket_D =
     (Inr (Response ''invalid tree operation'' 400), A_over_B) \<and>
   add_subticket small_backend only_A ticket_A ticket_B =
     (Inr (Response ''okay'' 200), A_over_B)"
proof -
  have p1: "pk_nodes A_over_B ticket_B = [(2, Some 1)]"
    and p2: "pk_nodes roots_of_two_teams ticket_A = [(1, None)]"
    and p3: "pk_nodes A_over_B_and_D ticket_A = [(1, None)]"
    and p4: "pk_nodes two_roots ticket_A = [(1, None)]"
    and p5: "pk_nodes A_over_B ticket_A = [(1, None)]"
    and p6: "pk_nodes only_A ticket_A = [(1, None)]"
    by (simp_all add: tree_examples)
  have h1: "pk_nodes A_over_B ticket_A = [(1, None)] \<and> is_root (1::nat, None::nat option) \<and>
      (fst (2::nat, Some (1::nat)) = fst (1::nat, None::nat option) \<or>
       is_descendant_of A_over_B (fst (2::nat, Some (1::nat))) (fst (1::nat, None::nat option)))"
    by (simp add: tree_examples)
  have h2: "pk_nodes roots_of_two_teams ticket_C = [(3, None)] \<and>
      is_root (3::nat, None::nat option) \<and>
      fst (1::nat, None::nat option) \<noteq> fst (3::nat, None::nat option) \<and>
      \<not> is_descendant_of roots_of_two_teams (fst (1::nat, None::nat option))
          (fst (3::nat, None::nat option)) \<and>
      team_key ticket_A \<noteq> team_key ticket_C"
    by (simp add: tree_examples)
  have h3: "pk_nodes A_over_B_and_D ticket_D = [(4, None)] \<and>
      is_root (4::nat, None::nat option) \<and>
      fst (1::nat, None::nat option) \<noteq> fst (4::nat, None::nat option) \<and>
      \<not> is_descendant_of A_over_B_and_D (fst (1::nat, None::nat option))
          (fst (4::nat, None::nat option)) \<and>
      team_key ticket_A = team_key ticket_D \<and>
      overflows small_backend A_over_B_and_D (fst (4::nat, None::nat option))
        (fst (1::nat, None::nat option))"
    by (simp add: tree_examples)
  have h4: "pk_nodes two_roots ticket_B = [(2, None)] \<and>
      is_root (2::nat, None::nat option) \<and>
      fst (1::nat, None::nat option) \<noteq> fst (2::nat, None::nat option) \<and>
      \<not> is_descendant_of two_roots (fst (1::nat, None::nat option))
          (fst (2::nat, None::nat option)) \<and>
      team_key ticket_A = team_key ticket_B \<and>
      \<not> overflows small_backend two_roots (fst (2::nat, None::nat option))
        (fst (1::nat, None::nat option))"
    by (simp add: tree_examples)
  have h5: "pk_nodes A_over_B ticket_B = [(2, Some 1)] \<and> \<not> is_root (2::nat, Some (1::nat))"
    by (simp add: tree_examples)
  have h6: "pk_nodes only_A ticket_C = [] \<and> ticket_id ticket_C = Some 3 \<and>
      team_key ticket_A \<noteq> team_key ticket_C"
    by (simp add: tree_examples)
  have h7: "wf_tree A_over_B \<and> pk_nodes A_over_B ticket_D = [] \<and> ticket_id ticket_D = Some 4 \<and>
      team_key ticket_B = team_key ticket_D \<and>
      overflows small_backend A_over_B 4 (fst (2::nat, Some (1::nat)))"
    using wf_A_over_B by (simp add: tree_examples)
  have h8: "wf_tree only_A \<and> pk_nodes only_A ticket_B = [] \<and> ticket_id ticket_B = Some 2 \<and>
      team_key ticket_A = team_key ticket_B \<and>
      \<not> overflows small_backend only_A 2 (fst (1::nat, None::nat option))"
    using wf_only_A by (simp add: tree_examples)
  note t = add_subticket_cases [where lim = small_backend]
  note c1 = t [THEN conjunct1, THEN mp, OF p1 h1]
  note c2 = t [THEN conjunct2, THEN conjunct1, THEN mp, OF p2 h2]
  note c3 = t [THEN conjunct2, THEN conjunct2, THEN conjunct1, THEN mp, OF p3 h3]
  note m = t [THEN conjunct2, THEN conjunct2, THEN conjunct2, THEN conjunct1, THEN mp, OF p4 h4]
  note c5 = t [THEN conjunct2, THEN conjunct2, THEN conjunct2, THEN conjunct2, THEN conjunct1,
      THEN mp, OF p5 h5]
  note c6 = t [THEN conjunct2, THEN conjunct2, THEN conjunct2, THEN conjunct2, THEN conjunct2,
      THEN conjunct1, THEN mp, OF p6 h6]
  note c7 = t [THEN conjunct2, THEN conjunct2, THEN conjunct2, THEN conjunct2, THEN conjunct2,
      THEN conjunct2, THEN conjunct1, THEN mp, OF p1 h7]
  note i = t [THEN conjunct2, THEN conjunct2, THEN conjunct2, THEN conjunct2, THEN conjunct2,
      THEN conjunct2, THEN conjunct2, THEN mp, OF p6 h8]
  from m have c4: "add_subticket small_backend two_roots ticket_A ticket_B =
     (Inr (Response ''okay'' 200), A_over_B)"
    by (simp add: two_roots_def A_over_B_def)
  from m have a4: "1 \<in> set (ancestors_of A_over_B 2)"
    unfolding c4 by simp
  from i have c8: "add_subticket small_backend only_A ticket_A ticket_B =
     (Inr (Response ''okay'' 200), A_over_B)"
    by (simp add: only_A_def A_over_B_def)
  have g: "get_children A_over_B 1 = [2]" by (simp add: get_children_def A_over_B_def)
  show ?thesis
    by (intro conjI) (rule c1 c2 c3 c4 a4 g c5 c6 c7 c8)+
qed

text \<open>
  C3, as stated, fails: in the forest where B is a child of A, the ticket A has a node
  and is a root, yet attaching A under B moves nothing.
\<close>

theorem root_not_moved_under_descendant:
  "pk_nodes A_over_B ticket_B = [(2, Some 1)] \<and>
   pk_nodes A_over_B ticket_A = [(1, None)] \<and> is_root (1, None) \<and>
   add_subticket small_backend A_over_B ticket_B ticket_A =
     (Inr (Response ''invalid tree operation'' 400), A_over_B) \<and>
   2 \<notin> set (ancestors_of A_over_B 1)"
  by (simp add: tree_examples add_subticket_def move_def caught_def ancestors_of_def)

text \<open>
  C4, as the code has it. For two tickets of different teams the call never succeeds
  and leaves the tree as it was. It raises \<open>CrossTeamViolation\<close> when the parent has a
  node and the child is a root under which the parent does not lie, or has no node; a
  child that has a parent is refused with "ticket already part of a graph" before any
  tree operation is called, and a parent without node is not found. Both mutating tree
  operations test the teams: \<open>add_child\<close> of a ticket of another team raises
  \<open>CrossTeamViolation\<close>, and \<open>move\<close> under a ticket of another team never succeeds.
\<close>

theorem cross_team_attach_fails:
  assumes "team_key parent \<noteq> team_key child"
  shows "snd (add_subticket lim tr parent child) = tr \<and>
         fst (add_subticket lim tr parent child) \<noteq> Inr (Response ''okay'' 200) \<and>
         (pk_nodes tr parent = [pn] \<and> pk_nodes tr child = [cn] \<and> is_root cn \<and>
            fst pn \<noteq> fst cn \<and> \<not> is_descendant_of tr (fst pn) (fst cn) \<longrightarrow>
          add_subticket lim tr parent child = (Inl CrossTeamViolation, tr)) \<and>
         (pk_nodes tr parent = [pn] \<and> pk_nodes tr child = [] \<and> ticket_id child = Some c \<longrightarrow>
          add_subticket lim tr parent child = (Inl CrossTeamViolation, tr)) \<and>
         (pk_nodes tr parent = [pn] \<and> pk_nodes tr child = [cn] \<and> \<not> is_root cn \<longrightarrow>
          add_subticket lim tr parent child =
            (Inr (Response ''ticket already part of a graph'' 400), tr)) \<and>
         (pk_nodes tr parent = [] \<longrightarrow> add_subticket lim tr parent child = (Inl Http404, tr)) \<and>
         add_child lim tr (p, team_key parent) (x, team_key child) = Inl CrossTeamViolation \<and>
         isl (move lim tr (x, team_key child) (p, team_key parent)) \<and>
         (p \<noteq> x \<and> \<not> is_descendant_of tr p x \<longrightarrow>
          move lim tr (x, team_key child) (p, team_key parent) = Inl CrossTeamViolation)"
proof (intro conjI impI)
  show "snd (add_subticket lim tr parent child) = tr"
    using assms
    by (auto simp: add_subticket_def move_def add_child_def caught_def
        split: list.splits option.splits)
  show "fst (add_subticket lim tr parent child) \<noteq> Inr (Response ''okay'' 200)"
    using assms
    by (auto simp: add_subticket_def move_def add_child_def caught_def
        split: list.splits option.splits)
next
  assume "pk_nodes tr parent = [pn] \<and> pk_nodes tr child = [cn] \<and> is_root cn \<and>
            fst pn \<noteq> fst cn \<and> \<not> is_descendant_of tr (fst pn) (fst cn)"
  then show "add_subticket lim tr parent child = (Inl CrossTeamViolation, tr)"
    using assms by (simp add: add_subticket_def move_def caught_def)
next
  assume "pk_nodes tr parent = [pn] \<and> pk_nodes tr child = [] \<and> ticket_id child = Some c"
  then show "add_subticket lim tr parent child = (Inl CrossTeamViolation, tr)"
    using assms by (simp add: add_subticket_def add_child_def caught_def)
next
  assume "pk_nodes tr parent = [pn] \<and> pk_nodes tr child = [cn] \<and> \<not> is_root cn"
  then show "add_subticket lim tr parent child =
            (Inr (Response ''ticket already part of a graph'' 400), tr)"
    by (simp add: add_subticket_def)
next
  assume "pk_nodes tr parent = []"
  then show "add_subticket lim tr parent child = (Inl Http404, tr)"
    by (simp add: add_subticket_def)
next
  show "add_child lim tr (p, team_key parent) (x, team_key child) = Inl CrossTeamViolation"
    using assms by (simp add: add_child_def)
next
  show "isl (move lim tr (x, team_key child) (p, team_key parent))"
    using assms by (simp add: move_def)
next
  assume "p \<noteq> x \<and> \<not> is_descendant_of tr p x"
  then show "move lim tr (x, team_key child) (p, team_key parent) = Inl CrossTeamViolation"
    using assms by (simp add: move_def)
qed

theorem cross_team_attach_fails_witness:
  "team_key ticket_A = Some 1 \<and> team_key ticket_C = Some 2 \<and> team_key ticket_E = Some 2 \<and>
   add_subticket small_backend roots_of_two_teams ticket_A ticket_C =
     (Inl CrossTeamViolation, roots_of_two_teams) \<and>
   add_subticket small_backend only_A ticket_A ticket_C = (Inl CrossTeamViolation, only_A) \<and>
   add_subticket small_backend A_and_C_over_E ticket_A ticket_E =
     (Inr (Response ''ticket already part of a graph'' 400), A_and_C_over_E) \<and>
   add_subticket small_backend roots_of_two_teams ticket_B ticket_C =
     (Inl Http404, roots_of_two_teams) \<and>
   add_child small_backend only_A (1, Some 1) (3, Some 2) = Inl CrossTeamViolation \<and>
   move small_backend roots_of_two_teams (3, Some 2) (1, Some 1) = Inl CrossTeamViolation"
proof -
  have k: "team_key ticket_A = Some 1" "team_key ticket_B = Some 1" "team_key ticket_C = Some 2"
    "team_key ticket_E = Some 2"
    by (simp_all add: tree_examples)
  have d: "team_key ticket_A \<noteq> team_key ticket_C" "team_key ticket_A \<noteq> team_key ticket_E"
    "team_key ticket_B \<noteq> team_key ticket_C"
    by (simp_all add: k)
  have h1: "pk_nodes roots_of_two_teams ticket_A = [(1, None)] \<and>
      pk_nodes roots_of_two_teams ticket_C = [(3, None)] \<and> is_root (3::nat, None::nat option) \<and>
      fst (1::nat, None::nat option) \<noteq> fst (3::nat, None::nat option) \<and>
      \<not> is_descendant_of roots_of_two_teams (fst (1::nat, None::nat option))
          (fst (3::nat, None::nat option))"
    by (simp add: tree_examples)
  have h2: "pk_nodes only_A ticket_A = [(1, None)] \<and> pk_nodes only_A ticket_C = [] \<and>
      ticket_id ticket_C = Some 3"
    by (simp add: tree_examples)
  have h3: "pk_nodes A_and_C_over_E ticket_A = [(1, None)] \<and>
      pk_nodes A_and_C_over_E ticket_E = [(5, Some 3)] \<and> \<not> is_root (5::nat, Some (3::nat))"
    by (simp add: tree_examples)
  have h4: "pk_nodes roots_of_two_teams ticket_B = []"
    by (simp add: tree_examples)
  have h5: "(1::nat) \<noteq> 3 \<and> \<not> is_descendant_of roots_of_two_teams 1 3"
    by (simp add: tree_examples)
  from cross_team_attach_fails [OF d(1), of small_backend roots_of_two_teams
      "(1, None)" "(3, None)" 0 1 3] h1 h5
  have c1: "add_subticket small_backend roots_of_two_teams ticket_A ticket_C =
      (Inl CrossTeamViolation, roots_of_two_teams)"
    "move small_backend roots_of_two_teams (3, Some 2) (1, Some 1) = Inl CrossTeamViolation"
    unfolding k by blast+
  from cross_team_attach_fails [OF d(1), of small_backend only_A "(1, None)" "(0, None)" 3 1 3] h2
  have c2: "add_subticket small_backend only_A ticket_A ticket_C = (Inl CrossTeamViolation, only_A)"
    "add_child small_backend only_A (1, Some 1) (3, Some 2) = Inl CrossTeamViolation"
    unfolding k by blast+
  from cross_team_attach_fails [OF d(2), of small_backend A_and_C_over_E
      "(1, None)" "(5, Some 3)" 0 1 3] h3
  have c3: "add_subticket small_backend A_and_C_over_E ticket_A ticket_E =
     (Inr (Response ''ticket already part of a graph'' 400), A_and_C_over_E)" by blast
  from cross_team_attach_fails [OF d(3), of small_backend roots_of_two_teams
      "(1, None)" "(3, None)" 0 1 3] h4
  have c4: "add_subticket small_backend roots_of_two_teams ticket_B ticket_C =
     (Inl Http404, roots_of_two_teams)" by blast
  from k c1 c2 c3 c4 show ?thesis by blast
qed

text \<open>
  C4, as stated, fails: E, of team 2, is a child of C; attaching it under A, of team 1,
  is refused as already attached, not as a violation of the team restriction.
\<close>

theorem cross_team_attach_of_child_is_already_attached:
  "team_key ticket_A = Some 1 \<and> team_key ticket_E = Some 2 \<and>
   pk_nodes A_and_C_over_E ticket_A = [(1, None)] \<and>
   pk_nodes A_and_C_over_E ticket_E = [(5, Some 3)] \<and>
   add_subticket small_backend A_and_C_over_E ticket_A ticket_E =
     (Inr (Response ''ticket already part of a graph'' 400), A_and_C_over_E) \<and>
   add_subticket small_backend A_and_C_over_E ticket_A ticket_E \<noteq>
     (Inl CrossTeamViolation, A_and_C_over_E)"
  by (simp add: tree_examples add_subticket_def)

lemma self_attach:
  "snd (add_subticket lim tr a a) = tr \<and>
   fst (add_subticket lim tr a a) \<noteq> Inr (Response ''okay'' 200)"
  by (auto simp: add_subticket_def move_def add_child_def caught_def
      split: list.splits option.splits)

text \<open>
  C5, as the code has it. From a well-formed forest, after any sequence of calls no
  ticket is among its own ancestors. Attaching a ticket under itself never succeeds and
  leaves the tree as it was: the move of a root onto itself raises
  \<open>InvalidMoveToDescendant\<close>, answered "invalid tree operation"; a ticket that has a
  parent is refused with "ticket already part of a graph"; a ticket without node is not
  found.
\<close>

theorem never_own_ancestor:
  assumes "wf_tree tr"
  shows "x \<notin> set (ancestors_of (add_subtickets lim tr calls) x) \<and>
         snd (add_subticket lim tr a a) = tr \<and>
         fst (add_subticket lim tr a a) \<noteq> Inr (Response ''okay'' 200) \<and>
         (pk_nodes tr a = [n] \<and> is_root n \<longrightarrow>
            move lim tr (fst n, team_key a) (fst n, team_key a) = Inl InvalidMoveToDescendant \<and>
            add_subticket lim tr a a = (Inr (Response ''invalid tree operation'' 400), tr)) \<and>
         (pk_nodes tr a = [n] \<and> \<not> is_root n \<longrightarrow>
            add_subticket lim tr a a = (Inr (Response ''ticket already part of a graph'' 400), tr)) \<and>
         (pk_nodes tr a = [] \<longrightarrow> add_subticket lim tr a a = (Inl Http404, tr))"
proof (intro conjI impI)
  show "x \<notin> set (ancestors_of (add_subtickets lim tr calls) x)"
    by (rule not_own_ancestor [OF wf_add_subtickets [OF assms]])
  show "snd (add_subticket lim tr a a) = tr" by (simp add: self_attach)
  show "fst (add_subticket lim tr a a) \<noteq> Inr (Response ''okay'' 200)" by (simp add: self_attach)
next
  assume "pk_nodes tr a = [n] \<and> is_root n"
  then show "move lim tr (fst n, team_key a) (fst n, team_key a) = Inl InvalidMoveToDescendant"
    "add_subticket lim tr a a = (Inr (Response ''invalid tree operation'' 400), tr)"
    by (simp_all add: add_subticket_def move_def caught_def)
next
  assume "pk_nodes tr a = [n] \<and> \<not> is_root n"
  then show "add_subticket lim tr a a = (Inr (Response ''ticket already part of a graph'' 400), tr)"
    by (simp add: add_subticket_def)
next
  assume "pk_nodes tr a = []"
  then show "add_subticket lim tr a a = (Inl Http404, tr)" by (simp add: add_subticket_def)
qed

theorem never_own_ancestor_witness:
  "wf_tree two_roots \<and>
   add_subtickets small_backend two_roots [(ticket_A, ticket_B), (ticket_B, ticket_A)] = A_over_B \<and>
   1 \<notin> set (ancestors_of A_over_B 1) \<and> 2 \<notin> set (ancestors_of A_over_B 2) \<and>
   add_subticket small_backend two_roots ticket_A ticket_A =
     (Inr (Response ''invalid tree operation'' 400), two_roots) \<and>
   add_subticket small_backend A_over_B ticket_B ticket_B =
     (Inr (Response ''ticket already part of a graph'' 400), A_over_B) \<and>
   add_subticket small_backend two_roots ticket_C ticket_C = (Inl Http404, two_roots)"
proof -
  note wf = wf_two_roots
  have run: "add_subtickets small_backend two_roots [(ticket_A, ticket_B), (ticket_B, ticket_A)] =
      A_over_B"
    by (simp add: tree_examples add_subticket_def move_def caught_def)
  have h: "pk_nodes two_roots ticket_A = [(1, None)] \<and> is_root (1, None)"
    "pk_nodes A_over_B ticket_B = [(2, Some 1)] \<and> \<not> is_root (2, Some 1)"
    "pk_nodes two_roots ticket_C = []"
    by (simp_all add: tree_examples)
  note t = never_own_ancestor [OF wf, where lim = small_backend]
  from t [of 1 "[(ticket_A, ticket_B), (ticket_B, ticket_A)]" ticket_A "(1, None)"]
    t [of 2 "[(ticket_A, ticket_B), (ticket_B, ticket_A)]" ticket_C "(1, None)"] h
  have a: "1 \<notin> set (ancestors_of A_over_B 1)" "2 \<notin> set (ancestors_of A_over_B 2)"
    "add_subticket small_backend two_roots ticket_A ticket_A =
       (Inr (Response ''invalid tree operation'' 400), two_roots)"
    "add_subticket small_backend two_roots ticket_C ticket_C = (Inl Http404, two_roots)"
    unfolding run by blast+
  from never_own_ancestor [OF wf_A_over_B, of 1 small_backend "[]" ticket_B "(2, Some 1)"] h(2)
  have b: "add_subticket small_backend A_over_B ticket_B ticket_B =
     (Inr (Response ''ticket already part of a graph'' 400), A_over_B)"
    by blast
  from wf run a b show ?thesis by blast
qed

text \<open>
  C5, as stated, fails in its last part: attaching B, which is a child of A, under itself
  is refused as already attached, not as a cycle.
\<close>

theorem self_attach_of_child_is_already_attached:
  "pk_nodes A_over_B ticket_B = [(2, Some 1)] \<and>
   add_subticket small_backend A_over_B ticket_B ticket_B =
     (Inr (Response ''ticket already part of a graph'' 400), A_over_B) \<and>
   add_subticket small_backend A_over_B ticket_B ticket_B \<noteq>
     (Inr (Response ''invalid tree operation'' 400), A_over_B)"
  by (simp add: tree_examples add_subticket_def)

end
